theory Spec2Isabelle
  imports Main "HOL-Library.Word" "HOL-Library.Sublist"
begin

text \<open>
  A model of \<^verbatim>\<open>Upsert\<close> and \<^verbatim>\<open>CreateTableIfNotExists\<close> of package sqly
  (\<^verbatim>\<open>src/sqly.go\<close>, lines 141 to 330: the revision that knows \<^verbatim>\<open>autoinc\<close> and byte
  slices). The values that the two functions inspect through package reflect, the
  calls into packages strings and regexp, and the statement executor are modelled first;
  the two functions follow, loop by loop, with the names of the source.
\<close>

section \<open>Go values as seen through package reflect\<close>

text \<open>
  The kinds of \<^verbatim>\<open>reflect.Kind\<close>, in the order of the Go declaration. The constructors
  carry a \<open>K\<close> prefix because \<open>Int\<close> and \<open>String\<close> are taken in HOL.
\<close>

datatype kind =
    KInvalid | KBool
  | KInt | KInt8 | KInt16 | KInt32 | KInt64
  | KUint | KUint8 | KUint16 | KUint32 | KUint64 | KUintptr
  | KFloat32 | KFloat64 | KComplex64 | KComplex128
  | KArray | KChan | KFunc | KInterface | KMap | KPointer | KSlice
  | KString | KStruct | KUnsafePointer

text \<open>
  A Go type (\<^verbatim>\<open>reflect.Type\<close>). A defined type such as \<^verbatim>\<open>type SQLTime int64\<close> has the
  kind of its underlying type and is represented by it; a struct type is represented by
  its name (\<^verbatim>\<open>Type.Name()\<close>), its fields live with the struct value.
\<close>

datatype gotype =
    TBool
  | TInt | TInt8 | TInt16 | TInt32 | TInt64
  | TUint | TUint8 | TUint16 | TUint32 | TUint64 | TUintptr
  | TFloat32 | TFloat64 | TComplex64 | TComplex128
  | TArray nat gotype | TChan gotype | TFunc | TInterface | TMap gotype gotype
  | TPointer gotype | TSlice gotype
  | TString | TStruct string | TUnsafePointer

fun Kind :: "gotype \<Rightarrow> kind" where
  "Kind TBool = KBool"
| "Kind TInt = KInt"
| "Kind TInt8 = KInt8"
| "Kind TInt16 = KInt16"
| "Kind TInt32 = KInt32"
| "Kind TInt64 = KInt64"
| "Kind TUint = KUint"
| "Kind TUint8 = KUint8"
| "Kind TUint16 = KUint16"
| "Kind TUint32 = KUint32"
| "Kind TUint64 = KUint64"
| "Kind TUintptr = KUintptr"
| "Kind TFloat32 = KFloat32"
| "Kind TFloat64 = KFloat64"
| "Kind TComplex64 = KComplex64"
| "Kind TComplex128 = KComplex128"
| "Kind (TArray n t) = KArray"
| "Kind (TChan t) = KChan"
| "Kind TFunc = KFunc"
| "Kind TInterface = KInterface"
| "Kind (TMap k t) = KMap"
| "Kind (TPointer t) = KPointer"
| "Kind (TSlice t) = KSlice"
| "Kind TString = KString"
| "Kind (TStruct n) = KStruct"
| "Kind TUnsafePointer = KUnsafePointer"

text \<open>
  \<^verbatim>\<open>reflect.StructField\<close>: the name, the package path (empty exactly for an exported
  field), the type, and the value of the tag under the key \<^verbatim>\<open>sqly\<close>, that is the
  result of \<^verbatim>\<open>field.Tag.Get("sqly")\<close> (the empty string when the key is absent).
\<close>

record StructField =
  Name :: string
  PkgPath :: string
  Type :: gotype
  Tag_sqly :: string

definition IsExported :: "StructField \<Rightarrow> bool" where
  "IsExported f = (PkgPath f = [])"

text \<open>
  A Go value behind an \<^verbatim>\<open>any\<close>. Integers are machine words of their width (\<^verbatim>\<open>int\<close> and
  \<^verbatim>\<open>uint\<close> are taken as 64 bits wide); floats are carried as their bit patterns and
  never computed with. A struct value holds its type name and, per field in declaration
  order, the field descriptor and the field's value. A pointer holds its pointee, or
  nothing when it is nil. \<open>VNil\<close> is the nil interface, for which \<^verbatim>\<open>reflect.ValueOf\<close>
  gives the zero Value. \<open>VOther\<close> stands for the values of every remaining type (slices
  other than byte slices, maps, channels, functions, arrays, complex numbers, ...).
\<close>

datatype govalue =
    VNil
  | VBool bool
  | VInt "64 word" | VInt8 "8 word" | VInt16 "16 word" | VInt32 "32 word" | VInt64 "64 word"
  | VUint "64 word" | VUint8 "8 word" | VUint16 "16 word" | VUint32 "32 word"
  | VUint64 "64 word" | VUintptr "64 word"
  | VFloat32 "32 word" | VFloat64 "64 word"
  | VString string
  | VBytes "8 word list"
  | VStruct string "(StructField \<times> govalue) list"
  | VPointer "govalue option"
  | VOther gotype

fun ValueKind :: "govalue \<Rightarrow> kind" where
  "ValueKind VNil = KInvalid"
| "ValueKind (VBool b) = KBool"
| "ValueKind (VInt w) = KInt"
| "ValueKind (VInt8 w) = KInt8"
| "ValueKind (VInt16 w) = KInt16"
| "ValueKind (VInt32 w) = KInt32"
| "ValueKind (VInt64 w) = KInt64"
| "ValueKind (VUint w) = KUint"
| "ValueKind (VUint8 w) = KUint8"
| "ValueKind (VUint16 w) = KUint16"
| "ValueKind (VUint32 w) = KUint32"
| "ValueKind (VUint64 w) = KUint64"
| "ValueKind (VUintptr w) = KUintptr"
| "ValueKind (VFloat32 w) = KFloat32"
| "ValueKind (VFloat64 w) = KFloat64"
| "ValueKind (VString s) = KString"
| "ValueKind (VBytes bs) = KSlice"
| "ValueKind (VStruct n fs) = KStruct"
| "ValueKind (VPointer p) = KPointer"
| "ValueKind (VOther t) = Kind t"

text \<open>\<^verbatim>\<open>Value.Elem()\<close> of a pointer: the pointee, the zero Value for a nil pointer.\<close>

fun Elem :: "govalue \<Rightarrow> govalue" where
  "Elem (VPointer (Some v)) = v"
| "Elem v = VNil"

text \<open>
  \<^verbatim>\<open>Value.CanInt()\<close> holds for the five signed kinds only; \<^verbatim>\<open>Value.Int()\<close> widens to
  \<^verbatim>\<open>int64\<close>; \<^verbatim>\<open>Value.SetInt(x)\<close> stores \<^verbatim>\<open>x\<close> converted to the field's own width.
  The code calls \<^verbatim>\<open>Int\<close> and \<^verbatim>\<open>SetInt\<close> only on a value for which \<^verbatim>\<open>CanInt\<close> holds; the
  last equation of each function, where Go would panic, is never reached from it.
\<close>

definition CanInt :: "govalue \<Rightarrow> bool" where
  "CanInt v = (ValueKind v \<in> {KInt, KInt8, KInt16, KInt32, KInt64})"

fun Int_of :: "govalue \<Rightarrow> 64 word" where
  "Int_of (VInt w) = w"
| "Int_of (VInt8 w) = scast w"
| "Int_of (VInt16 w) = scast w"
| "Int_of (VInt32 w) = scast w"
| "Int_of (VInt64 w) = w"
| "Int_of v = 0"

fun SetInt :: "govalue \<Rightarrow> 64 word \<Rightarrow> govalue" where
  "SetInt (VInt w) x = VInt x"
| "SetInt (VInt8 w) x = VInt8 (ucast x)"
| "SetInt (VInt16 w) x = VInt16 (ucast x)"
| "SetInt (VInt32 w) x = VInt32 (ucast x)"
| "SetInt (VInt64 w) x = VInt64 x"
| "SetInt v x = v"

section \<open>The functions of package strings and regexp that the code calls\<close>

text \<open>\<^verbatim>\<open>strings.Split(s, sep)\<close> for a separator of one byte (the code passes "," and ";").\<close>

fun Split :: "string \<Rightarrow> char \<Rightarrow> string list" where
  "Split [] sep = [[]]"
| "Split (c # cs) sep =
     (if c = sep then [] # Split cs sep
      else (case Split cs sep of x # xs \<Rightarrow> (c # x) # xs | [] \<Rightarrow> [[c]]))"

fun Join :: "string list \<Rightarrow> string \<Rightarrow> string" where
  "Join [] sep = []"
| "Join [x] sep = x"
| "Join (x # y # ys) sep = x @ sep @ Join (y # ys) sep"

fun Contains :: "string \<Rightarrow> string \<Rightarrow> bool" where
  "Contains [] substr = (substr = [])"
| "Contains (c # cs) substr = (prefix substr (c # cs) \<or> Contains cs substr)"

text \<open>
  \<^verbatim>\<open>regexp.MustCompile(lit + `\((.*)\)`).FindStringSubmatch(s)\<close>, reduced to the one
  capture group the code reads (\<^verbatim>\<open>match[1]\<close>); \<open>lit\<close> is the literal text up to and
  including the opening parenthesis. The match is the leftmost one; \<^verbatim>\<open>.*\<close> is greedy
  and does not cross a line feed, so the group ends before the last closing parenthesis
  of the line.
\<close>

definition submatch_at :: "string \<Rightarrow> string \<Rightarrow> string option" where
  "submatch_at lit s =
     (if prefix lit s then
        (let line = takeWhile (\<lambda>c. c \<noteq> CHR 0x0A) (drop (length lit) s) in
         if CHR '')'' \<in> set line
         then Some (rev (tl (dropWhile (\<lambda>c. c \<noteq> CHR '')'') (rev line))))
         else None)
      else None)"

fun FindStringSubmatch :: "string \<Rightarrow> string \<Rightarrow> string option" where
  "FindStringSubmatch lit [] = submatch_at lit []"
| "FindStringSubmatch lit (c # cs) =
     (case submatch_at lit (c # cs) of
        Some m \<Rightarrow> Some m
      | None \<Rightarrow> FindStringSubmatch lit cs)"

definition uniqueWithRegexp :: string where
  "uniqueWithRegexp = ''uniqueWith(''"

definition indexWithRegexp :: string where
  "indexWithRegexp = ''indexWith(''"

section \<open>Errors and the statement executor\<close>

text \<open>
  One constructor per \<^verbatim>\<open>errors.Errorf\<close> call of the source, carrying the arguments that
  the message is formatted from. \<open>ExecError\<close> is an error of the executor (or of
  \<^verbatim>\<open>LastInsertId\<close>) passed through \<^verbatim>\<open>withStack\<close>, which keeps the message.
  \<open>IndexOutOfRange\<close> is the run-time panic of an out-of-range slice index.
\<close>

datatype error =
    NotAStruct govalue
  | UnsupportedSliceType gotype
  | UnsupportedType StructField
  | AutoincNotInteger string
  | AutoincNotPkey string
  | NoPrimaryKey govalue
  | NotAPtr govalue
  | NotAPtrToStruct govalue
  | ExecError string
  | IndexOutOfRange

text \<open>
  \<^verbatim>\<open>sql.Result\<close>, reduced to what \<^verbatim>\<open>LastInsertId()\<close> returns: an error message or the id.
  An executor (\<^verbatim>\<open>sqlx.ExecerContext\<close>) is a transition on its own state: given a
  statement and its parameters it answers with an error message or a result.
\<close>

datatype Result = Result (LastInsertId: "string + 64 word")

type_synonym 's execer = "'s \<Rightarrow> string \<Rightarrow> govalue list \<Rightarrow> (string + Result) \<times> 's"

text \<open>
  An executor that also keeps the list of the calls made to it, oldest first: the
  means to say which statements a function issues.
\<close>

definition recording :: "'s execer \<Rightarrow> ('s \<times> (string \<times> govalue list) list) execer" where
  "recording ex = (\<lambda>(s, log) query args.
     (case ex s query args of (r, s') \<Rightarrow> (r, (s', log @ [(query, args)]))))"

text \<open>The tokens of a field's annotation: \<^verbatim>\<open>strings.Split(field.Tag.Get("sqly"), ",")\<close>.\<close>

definition tags_of :: "StructField \<Rightarrow> string list" where
  "tags_of field = Split (Tag_sqly field) CHR '',''"

section \<open>The struct value behind \<^verbatim>\<open>reflect.Value\<close>\<close>

text \<open>\<^verbatim>\<open>val.Type().Name()\<close> and the fields \<^verbatim>\<open>typ.Field(i)\<close>, \<^verbatim>\<open>val.Field(i)\<close> of a struct value.\<close>

fun TypeName :: "govalue \<Rightarrow> string" where
  "TypeName (VStruct n fs) = n"
| "TypeName v = []"

fun Fields :: "govalue \<Rightarrow> (StructField \<times> govalue) list" where
  "Fields (VStruct n fs) = fs"
| "Fields v = []"

text \<open>\<^verbatim>\<open>fmt.Sprintf("`%s`", name)\<close>\<close>

definition backquote :: "string \<Rightarrow> string" where
  "backquote name = ''`'' @ name @ ''`''"

section \<open>CreateTableIfNotExists\<close>

datatype index = Index (index_cols: "string list") (index_unique: bool)

text \<open>The \<^verbatim>\<open>switch field.Type.Kind()\<close> that derives the SQL type of a field.\<close>

definition sqlTypeOf :: "StructField \<Rightarrow> error + string" where
  "sqlTypeOf field =
     (let k = Kind (Type field) in
      if k = KString then Inr ''TEXT''
      else if k \<in> {KUint, KUint8, KUint16, KUint32, KUint64,
                   KInt, KInt8, KInt16, KInt32, KInt64} then Inr ''INTEGER''
      else if k = KFloat32 then Inr ''REAL''
      else if k = KFloat64 then Inr ''REAL''
      else if k = KBool then Inr ''INTEGER''
      else (case Type field of
              TSlice e \<Rightarrow>
                if Kind e = KUint8 then Inr ''BLOB'' else Inl (UnsupportedSliceType e)
            | _ \<Rightarrow> Inl (UnsupportedType field)))"

text \<open>
  The variables of the scan over the fields. \<open>isPkey\<close> and \<open>autoIncrement\<close> are
  declared per field and start as false for each.
\<close>

record scan =
  primaryKeyCol :: string
  primaryKeySQLType :: string
  pkeyAutoInc :: string
  cols :: "string list"
  sqlTypes :: "string list"
  indices :: "index list"
  isPkey :: bool
  autoIncrement :: bool

definition init_scan :: scan where
  "init_scan = \<lparr>primaryKeyCol = [], primaryKeySQLType = [], pkeyAutoInc = [],
     cols = [], sqlTypes = [], indices = [], isPkey = False, autoIncrement = False\<rparr>"

text \<open>The \<^verbatim>\<open>switch tag\<close> of the loop over the tokens of the annotation.\<close>

definition tag_switch :: "string \<Rightarrow> string \<Rightarrow> string \<Rightarrow> scan \<Rightarrow> scan" where
  "tag_switch name sqlType tag st =
     (if tag = ''unique'' then st\<lparr>indices := indices st @ [Index [name] True]\<rparr>
      else if tag = ''index'' then st\<lparr>indices := indices st @ [Index [name] False]\<rparr>
      else if tag = ''pkey''
        then st\<lparr>isPkey := True, primaryKeyCol := name, primaryKeySQLType := sqlType\<rparr>
      else if tag = ''autoinc'' then st\<lparr>autoIncrement := True\<rparr>
      else (case FindStringSubmatch uniqueWithRegexp tag of
              Some m \<Rightarrow> st\<lparr>indices := indices st @ [Index (name # Split m CHR '';'') True]\<rparr>
            | None \<Rightarrow>
               (case FindStringSubmatch indexWithRegexp tag of
                  Some m \<Rightarrow>
                    st\<lparr>indices := indices st @ [Index (name # Split m CHR '';'') False]\<rparr>
                | None \<Rightarrow> st)))"

text \<open>The \<^verbatim>\<open>if isPkey ... else ...\<close> that follows the switch, inside the same loop body.\<close>

definition tag_check :: "string \<Rightarrow> string \<Rightarrow> scan \<Rightarrow> error + scan" where
  "tag_check name sqlType st =
     (if isPkey st then
        (if autoIncrement st then
           (if sqlType \<noteq> ''INTEGER'' then Inl (AutoincNotInteger name)
            else Inr (st\<lparr>pkeyAutoInc := '' AUTOINCREMENT''\<rparr>))
         else Inr st)
      else
        (if autoIncrement st then Inl (AutoincNotPkey name)
         else Inr (st\<lparr>cols := cols st @ [name], sqlTypes := sqlTypes st @ [sqlType]\<rparr>)))"

fun tag_loop :: "string \<Rightarrow> string \<Rightarrow> string list \<Rightarrow> scan \<Rightarrow> error + scan" where
  "tag_loop name sqlType [] st = Inr st"
| "tag_loop name sqlType (tag # tags) st =
     (case tag_check name sqlType (tag_switch name sqlType tag st) of
        Inl e \<Rightarrow> Inl e
      | Inr st' \<Rightarrow> tag_loop name sqlType tags st')"

text \<open>\<^verbatim>\<open>isPkey := false\<close> and \<^verbatim>\<open>autoIncrement := false\<close> at the top of the body.\<close>

definition field_start :: "scan \<Rightarrow> scan" where
  "field_start st = st\<lparr>isPkey := False, autoIncrement := False\<rparr>"

fun field_loop :: "StructField list \<Rightarrow> scan \<Rightarrow> error + scan" where
  "field_loop [] st = Inr st"
| "field_loop (field # rest) st =
     (if IsExported field then
        (case sqlTypeOf field of
           Inl e \<Rightarrow> Inl e
         | Inr sqlType \<Rightarrow>
            (case tag_loop (Name field) sqlType (tags_of field) (field_start st) of
               Inl e \<Rightarrow> Inl e
             | Inr st' \<Rightarrow> field_loop rest st'))
      else field_loop rest st)"

definition create_stmt :: "string \<Rightarrow> scan \<Rightarrow> string" where
  "create_stmt tname st =
     ''CREATE TABLE IF NOT EXISTS `'' @ tname @ ''` (`'' @ primaryKeyCol st @ ''` ''
       @ primaryKeySQLType st @ '' PRIMARY KEY'' @ pkeyAutoInc st @ '')''"

definition alter_stmt :: "string \<Rightarrow> string \<Rightarrow> string \<Rightarrow> string" where
  "alter_stmt tname col sqlType =
     ''ALTER TABLE `'' @ tname @ ''` ADD COLUMN `'' @ col @ ''` '' @ sqlType"

definition index_stmt :: "string \<Rightarrow> index \<Rightarrow> string" where
  "index_stmt tname idx =
     ''CREATE '' @ (if index_unique idx then ''UNIQUE '' else [])
       @ ''INDEX IF NOT EXISTS `'' @ tname @ ''.'' @ Join (index_cols idx) '',''
       @ ''` ON `'' @ tname @ ''` ('' @ Join (map backquote (index_cols idx)) '','' @ '')''"

text \<open>
  The loop over \<open>cols\<close>; \<^verbatim>\<open>sqlTypes[colIndex]\<close> panics out of range, before the
  statement is issued.
\<close>

fun alter_loop ::
  "'s execer \<Rightarrow> string \<Rightarrow> string list \<Rightarrow> string list \<Rightarrow> nat \<Rightarrow> 's \<Rightarrow> error option \<times> 's" where
  "alter_loop execer tname [] tys colIndex s = (None, s)"
| "alter_loop execer tname (col # rest) tys colIndex s =
     (if colIndex < length tys then
        (case execer s (alter_stmt tname col (tys ! colIndex)) [] of
           (Inl msg, s') \<Rightarrow>
             if \<not> Contains msg ''duplicate column name'' then (Some (ExecError msg), s')
             else alter_loop execer tname rest tys (Suc colIndex) s'
         | (Inr res, s') \<Rightarrow> alter_loop execer tname rest tys (Suc colIndex) s')
      else (Some IndexOutOfRange, s))"

fun index_loop :: "'s execer \<Rightarrow> string \<Rightarrow> index list \<Rightarrow> 's \<Rightarrow> error option \<times> 's" where
  "index_loop execer tname [] s = (None, s)"
| "index_loop execer tname (idx # rest) s =
     (case execer s (index_stmt tname idx) [] of
        (Inl msg, s') \<Rightarrow> (Some (ExecError msg), s')
      | (Inr res, s') \<Rightarrow> index_loop execer tname rest s')"

text \<open>The result is the returned error (none for \<^verbatim>\<open>nil\<close>) and the executor's state.\<close>

definition CreateTableIfNotExists :: "'s execer \<Rightarrow> 's \<Rightarrow> govalue \<Rightarrow> error option \<times> 's" where
  "CreateTableIfNotExists execer s prototype =
     (if ValueKind prototype \<noteq> KStruct then (Some (NotAStruct prototype), s)
      else
        (case field_loop (map fst (Fields prototype)) init_scan of
           Inl e \<Rightarrow> (Some e, s)
         | Inr st \<Rightarrow>
            if primaryKeyCol st = [] then (Some (NoPrimaryKey prototype), s)
            else
              (case execer s (create_stmt (TypeName prototype) st) [] of
                 (Inl msg, s1) \<Rightarrow> (Some (ExecError msg), s1)
               | (Inr res, s1) \<Rightarrow>
                  (case alter_loop execer (TypeName prototype) (cols st) (sqlTypes st) 0 s1 of
                     (Some e, s2) \<Rightarrow> (Some e, s2)
                   | (None, s2) \<Rightarrow> index_loop execer (TypeName prototype) (indices st) s2))))"

section \<open>Upsert\<close>

text \<open>
  The variables of the loop over the fields. \<open>primaryKeyFieldToSet\<close> points to a field
  of the struct: here the index of that field.
\<close>

record insert_acc =
  ins_cols :: "string list"
  qmarks :: "string list"
  params :: "govalue list"
  primaryKeyFieldToSet :: "nat option"

definition init_acc :: insert_acc where
  "init_acc = \<lparr>ins_cols = [], qmarks = [], params = [], primaryKeyFieldToSet = None\<rparr>"

text \<open>The inner loop over the tokens: the pair is (\<open>primaryKeyFieldToSet\<close>, \<open>skip\<close>).\<close>

fun upsert_tags :: "string list \<Rightarrow> govalue \<Rightarrow> nat \<Rightarrow> nat option \<times> bool \<Rightarrow> nat option \<times> bool" where
  "upsert_tags [] fieldVal fieldIndex ps = ps"
| "upsert_tags (tag # tags) fieldVal fieldIndex ps =
     (if tag = ''pkey'' \<and> CanInt fieldVal \<and> Int_of fieldVal = 0
      then upsert_tags tags fieldVal fieldIndex (Some fieldIndex, True)
      else upsert_tags tags fieldVal fieldIndex ps)"

fun upsert_fields :: "(StructField \<times> govalue) list \<Rightarrow> nat \<Rightarrow> insert_acc \<Rightarrow> insert_acc" where
  "upsert_fields [] fieldIndex acc = acc"
| "upsert_fields ((field, fieldVal) # rest) fieldIndex acc =
     (if IsExported field then
        (case upsert_tags (tags_of field) fieldVal fieldIndex
                (primaryKeyFieldToSet acc, False) of
           (pk, skip) \<Rightarrow>
             upsert_fields rest (Suc fieldIndex)
               (if \<not> skip
                then acc\<lparr>primaryKeyFieldToSet := pk,
                         ins_cols := ins_cols acc @ [backquote (Name field)],
                         qmarks := qmarks acc @ [''?''],
                         params := params acc @ [fieldVal]\<rparr>
                else acc\<lparr>primaryKeyFieldToSet := pk\<rparr>))
      else upsert_fields rest (Suc fieldIndex) acc)"

definition insert_stmt :: "bool \<Rightarrow> string \<Rightarrow> insert_acc \<Rightarrow> string" where
  "insert_stmt overwrite tname acc =
     ''INSERT '' @ (if overwrite then ''OR REPLACE '' else []) @ ''INTO `'' @ tname
       @ ''` ('' @ Join (ins_cols acc) '','' @ '') VALUES ('' @ Join (qmarks acc) '','' @ '')''"

text \<open>\<^verbatim>\<open>primaryKeyFieldToSet.SetInt(lastID)\<close> on the struct that the pointer refers to.\<close>

definition set_field :: "govalue \<Rightarrow> nat \<Rightarrow> 64 word \<Rightarrow> govalue" where
  "set_field val i lastID =
     VStruct (TypeName val)
       ((Fields val)[i := (fst (Fields val ! i), SetInt (snd (Fields val ! i)) lastID)])"

text \<open>
  The result is the returned error, the value of \<open>structPointer\<close> after the call (the
  pointer with its pointee as the call leaves it) and the executor's state.
\<close>

definition Upsert :: "'s execer \<Rightarrow> 's \<Rightarrow> govalue \<Rightarrow> bool \<Rightarrow> error option \<times> govalue \<times> 's" where
  "Upsert execer s structPointer overwrite =
     (if ValueKind structPointer \<noteq> KPointer then (Some (NotAPtr structPointer), structPointer, s)
      else
        (let val = Elem structPointer in
         if ValueKind val \<noteq> KStruct then (Some (NotAPtrToStruct structPointer), structPointer, s)
         else
           (let acc = upsert_fields (Fields val) 0 init_acc in
            case execer s (insert_stmt overwrite (TypeName val) acc) (params acc) of
              (Inl msg, s') \<Rightarrow> (Some (ExecError msg), structPointer, s')
            | (Inr res, s') \<Rightarrow>
               (case primaryKeyFieldToSet acc of
                  None \<Rightarrow> (None, structPointer, s')
                | Some i \<Rightarrow>
                   (case LastInsertId res of
                      Inl msg \<Rightarrow> (Some (ExecError msg), structPointer, s')
                    | Inr lastID \<Rightarrow> (None, VPointer (Some (set_field val i lastID)), s'))))))"

section \<open>Notions used to state the properties\<close>

text \<open>
  An exported field that Upsert leaves out of the statement: one of its tokens is
  \<open>pkey\<close> and its value is of a signed integer kind and equal to zero.
\<close>

definition zero_pkey :: "StructField \<times> govalue \<Rightarrow> bool" where
  "zero_pkey fv = (IsExported (fst fv) \<and> ''pkey'' \<in> set (tags_of (fst fv))
      \<and> CanInt (snd fv) \<and> Int_of (snd fv) = 0)"

text \<open>An exported field that takes part in the statement of Upsert.\<close>

definition included :: "StructField \<times> govalue \<Rightarrow> bool" where
  "included fv = (IsExported (fst fv) \<and> \<not> zero_pkey fv)"

text \<open>An exported field that carries the \<open>pkey\<close> directive.\<close>

definition has_pkey :: "StructField \<Rightarrow> bool" where
  "has_pkey f = (IsExported f \<and> ''pkey'' \<in> set (tags_of f))"

text \<open>The SQL type of a field whose kind is supported.\<close>

definition sql_type :: "StructField \<Rightarrow> string" where
  "sql_type f = (case sqlTypeOf f of Inr ty \<Rightarrow> ty | Inl e \<Rightarrow> [])"

text \<open>
  The value columns that a field gives rise to: one per token that precedes its first
  \<open>pkey\<close> token (all of its tokens when it has none).
\<close>

definition value_copies :: "StructField \<Rightarrow> (string \<times> string) list" where
  "value_copies f =
     replicate (length (takeWhile (\<lambda>t. t \<noteq> ''pkey'') (tags_of f))) (Name f, sql_type f)"

text \<open>The value columns of a record type, in the order of the ADD COLUMN statements.\<close>

definition value_columns :: "StructField list \<Rightarrow> (string \<times> string) list" where
  "value_columns fs = concat (map value_copies (filter IsExported fs))"

text \<open>
  A field's \<open>autoinc\<close> directive is accepted: the field resolves to INTEGER and a
  \<open>pkey\<close> token precedes the first \<open>autoinc\<close> token.
\<close>

definition autoinc_ok :: "StructField \<Rightarrow> bool" where
  "autoinc_ok f = (''autoinc'' \<in> set (tags_of f) \<longrightarrow>
      sqlTypeOf f = Inr ''INTEGER''
      \<and> ''pkey'' \<in> set (takeWhile (\<lambda>t. t \<noteq> ''autoinc'') (tags_of f)))"


text \<open>A struct's fields without the non-exported ones.\<close>

definition exported_fields :: "(StructField \<times> govalue) list \<Rightarrow> (StructField \<times> govalue) list" where
  "exported_fields fs = filter (\<lambda>fv. IsExported (fst fv)) fs"

section \<open>Sample record types and executors\<close>

text \<open>
  An exported field; an executor that accepts every statement and reports the last
  inserted id 7; one that rejects every statement with a given message; one that answers
  every ALTER TABLE with a duplicate-column failure; and the structs that the properties
  below are evaluated on.
\<close>

definition mk_field :: "string \<Rightarrow> gotype \<Rightarrow> string \<Rightarrow> StructField" where
  "mk_field name ty tag = \<lparr>Name = name, PkgPath = [], Type = ty, Tag_sqly = tag\<rparr>"

definition accept_all :: "unit execer" where
  "accept_all = (\<lambda>s query args. (Inr (Result (Inr 7)), s))"

definition reject_all :: "string \<Rightarrow> unit execer" where
  "reject_all msg = (\<lambda>s query args. (Inl msg, s))"


definition unbalanced_with :: "(StructField \<times> govalue) list" where
  "unbalanced_with =
     [(mk_field ''Id'' TInt ''pkey'', VInt 0), (mk_field ''A'' TInt ''uniqueWith('', VInt 0)]"

definition empty_with :: "(StructField \<times> govalue) list" where
  "empty_with =
     [(mk_field ''Id'' TInt ''pkey'', VInt 0), (mk_field ''A'' TInt ''uniqueWith()'', VInt 0)]"

definition map_then_autoinc :: "(StructField \<times> govalue) list" where
  "map_then_autoinc =
     [(mk_field ''Data'' (TMap TString TInt) [], VOther (TMap TString TInt)),
      (mk_field ''N'' TInt ''autoinc'', VInt 0)]"

definition pkey_autoinc :: "(StructField \<times> govalue) list" where
  "pkey_autoinc =
     [(mk_field ''Id'' TInt ''pkey,autoinc'', VInt 0), (mk_field ''Name'' TString [], VString ''x'')]"

definition autoinc_pkey :: "(StructField \<times> govalue) list" where
  "autoinc_pkey = [(mk_field ''Id'' TInt ''autoinc,pkey'', VInt 0)]"

definition only_autoinc :: "(StructField \<times> govalue) list" where
  "only_autoinc = [(mk_field ''N'' TInt ''autoinc'', VInt 0)]"

definition only_map :: "(StructField \<times> govalue) list" where
  "only_map = [(mk_field ''Data'' (TMap TString TInt) [], VOther (TMap TString TInt))]"

definition only_name :: "(StructField \<times> govalue) list" where
  "only_name = [(mk_field ''Name'' TString [], VString ''x'')]"

definition uint_pkey :: "(StructField \<times> govalue) list" where
  "uint_pkey = [(mk_field ''Id'' TUint ''pkey'', VUint 0)]"

definition int64_pkey :: "(StructField \<times> govalue) list" where
  "int64_pkey =
     [(mk_field ''Id'' TInt64 ''pkey'', VInt64 0), (mk_field ''Name'' TString [], VString ''x'')]"

definition explicit_key :: "(StructField \<times> govalue) list" where
  "explicit_key =
     [(mk_field ''Id'' TInt64 ''pkey'', VInt64 5), (mk_field ''Name'' TString [], VString ''x'')]"

definition with_secret :: "(StructField \<times> govalue) list" where
  "with_secret =
     [(\<lparr>Name = ''secret'', PkgPath = ''sqly'', Type = TInt, Tag_sqly = ''pkey''\<rparr>, VInt 0),
      (mk_field ''Id'' TInt64 ''pkey'', VInt64 0)]"

definition id_and_name :: "(StructField \<times> govalue) list" where
  "id_and_name =
     [(mk_field ''Id'' TInt ''pkey'', VInt 0), (mk_field ''Name'' TString [], VString ''x'')]"

definition dup_column_exec :: "unit execer" where
  "dup_column_exec = (\<lambda>s query args.
     if prefix ''ALTER TABLE'' query then (Inl ''duplicate column name: Name'', s)
     else (Inr (Result (Inr 0)), s))"


definition secret_in_index :: "(StructField \<times> govalue) list" where
  "secret_in_index =
     [(\<lparr>Name = ''secret'', PkgPath = ''sqly'', Type = TInt, Tag_sqly = []\<rparr>, VInt 0),
      (mk_field ''Id'' TInt ''pkey'', VInt 0),
      (mk_field ''A'' TInt ''uniqueWith(secret)'', VInt 0)]"

section \<open>Lemmas about the loops\<close>

subsection \<open>The functions on strings\<close>

lemma Contains_iff_sublist: "Contains s substr \<longleftrightarrow> sublist substr s"
  by (induction s) (simp_all add: sublist_Cons_right)

lemma Split_not_Nil: "Split s sep \<noteq> []"
  by (induction s) (auto split: list.splits)

lemma Join_Split: "Join (Split s sep) [sep] = s"
proof (induction s)
  case Nil
  show ?case by simp
next
  case (Cons c cs)
  obtain x xs where sp: "Split cs sep = x # xs"
    using Split_not_Nil [of cs sep] by (cases "Split cs sep") auto
  with Cons show ?case by (cases xs) auto
qed

lemma Split_no_sep: "sep \<notin> set s \<Longrightarrow> Split s sep = [s]"
  by (induction s) auto

lemma submatch_at_no_close:
  assumes "CHR '')'' \<notin> set s"
  shows "submatch_at lit s = None"
proof -
  have "CHR '')'' \<notin> set (takeWhile (\<lambda>c. c \<noteq> CHR 0x0A) (drop (length lit) s))"
    using assms by (auto dest!: set_takeWhileD in_set_dropD)
  then show ?thesis
    unfolding submatch_at_def Let_def by (simp only: if_False if_cancel)
qed

lemma no_close_no_submatch:
  "CHR '')'' \<notin> set s \<Longrightarrow> FindStringSubmatch lit s = None"
proof (induction s)
  case Nil
  then show ?case by (simp add: submatch_at_no_close)
next
  case (Cons c cs)
  from Cons.prems have "submatch_at lit (c # cs) = None"
    by (rule submatch_at_no_close)
  with Cons show ?case by simp
qed

lemma submatch_uniqueWith_empty:
  "FindStringSubmatch uniqueWithRegexp ''uniqueWith()'' = Some []"
  by (simp add: uniqueWithRegexp_def submatch_at_def)

lemma submatch_indexWith_empty:
  "FindStringSubmatch uniqueWithRegexp ''indexWith()'' = None"
  "FindStringSubmatch indexWithRegexp ''indexWith()'' = Some []"
  by (simp_all add: uniqueWithRegexp_def indexWithRegexp_def submatch_at_def)

subsection \<open>The type switch\<close>







lemma sqlTypeOf_error:
  "sqlTypeOf f = Inl e \<Longrightarrow> (\<exists>t. e = UnsupportedSliceType t) \<or> e = UnsupportedType f"
  by (auto simp add: sqlTypeOf_def Let_def split: if_splits gotype.splits)


subsection \<open>The loop over the tokens of an annotation\<close>

lemma field_start_simps [simp]:
  "isPkey (field_start st) = False" "autoIncrement (field_start st) = False"
  "primaryKeyCol (field_start st) = primaryKeyCol st"
  "primaryKeySQLType (field_start st) = primaryKeySQLType st"
  "pkeyAutoInc (field_start st) = pkeyAutoInc st"
  "cols (field_start st) = cols st" "sqlTypes (field_start st) = sqlTypes st"
  "indices (field_start st) = indices st"
  by (simp_all add: field_start_def)

lemma tag_switch_isPkey:
  "isPkey (tag_switch name ty tag st) = (isPkey st \<or> tag = ''pkey'')"
  by (simp add: tag_switch_def split: option.splits)

lemma tag_switch_primaryKeyCol:
  "primaryKeyCol (tag_switch name ty tag st) = (if tag = ''pkey'' then name else primaryKeyCol st)"
  by (simp add: tag_switch_def split: option.splits)

lemma tag_switch_primaryKeySQLType:
  "primaryKeySQLType (tag_switch name ty tag st) =
     (if tag = ''pkey'' then ty else primaryKeySQLType st)"
  by (simp add: tag_switch_def split: option.splits)

lemma tag_switch_cols:
  "cols (tag_switch name ty tag st) = cols st"
  "sqlTypes (tag_switch name ty tag st) = sqlTypes st"
  "pkeyAutoInc (tag_switch name ty tag st) = pkeyAutoInc st"
  by (simp_all add: tag_switch_def split: option.splits)

lemma tag_switch_autoinc_True:
  "autoIncrement (tag_switch name ty tag st) = (autoIncrement st \<or> tag = ''autoinc'')"
  by (simp add: tag_switch_def split: option.splits)

lemma tag_check_Inr:
  "tag_check name ty st = Inr st' \<Longrightarrow>
     isPkey st' = isPkey st \<and> autoIncrement st' = autoIncrement st
     \<and> primaryKeyCol st' = primaryKeyCol st \<and> primaryKeySQLType st' = primaryKeySQLType st
     \<and> indices st' = indices st
     \<and> cols st' = cols st @ (if isPkey st then [] else [name])
     \<and> sqlTypes st' = sqlTypes st @ (if isPkey st then [] else [ty])
     \<and> pkeyAutoInc st' = (if autoIncrement st then '' AUTOINCREMENT'' else pkeyAutoInc st)
     \<and> (autoIncrement st \<longrightarrow> isPkey st \<and> ty = ''INTEGER'')"
  by (auto simp: tag_check_def split: if_splits)

lemma tag_check_Inl:
  "tag_check name ty st = Inl e \<Longrightarrow>
     autoIncrement st \<and> (e = AutoincNotInteger name \<or> e = AutoincNotPkey name)"
  by (auto simp: tag_check_def split: if_splits)

lemma tag_check_ok:
  "\<not> autoIncrement st \<Longrightarrow> \<exists>st'. tag_check name ty st = Inr st'"
  by (simp add: tag_check_def)

lemma tag_check_ok_pkey:
  "isPkey st \<Longrightarrow> \<exists>st'. tag_check name ''INTEGER'' st = Inr st' \<and> isPkey st'"
  by (simp add: tag_check_def)

lemma tag_loop_Inl:
  "tag_loop name ty tags st = Inl e \<Longrightarrow> e = AutoincNotInteger name \<or> e = AutoincNotPkey name"
  by (induction tags arbitrary: st) (auto split: sum.splits dest: tag_check_Inl)

lemma tag_loop_pk:
  "tag_loop name ty tags st = Inr st' \<Longrightarrow>
     primaryKeyCol st' = (if ''pkey'' \<in> set tags then name else primaryKeyCol st)
     \<and> primaryKeySQLType st' = (if ''pkey'' \<in> set tags then ty else primaryKeySQLType st)
     \<and> isPkey st' = (isPkey st \<or> ''pkey'' \<in> set tags)"
proof (induction tags arbitrary: st)
  case Nil
  then show ?case by simp
next
  case (Cons tag tags)
  from Cons.prems obtain st1 where
    st1: "tag_check name ty (tag_switch name ty tag st) = Inr st1"
    and rest: "tag_loop name ty tags st1 = Inr st'"
    by (auto split: sum.splits)
  from tag_check_Inr [OF st1] Cons.IH [OF rest] show ?case
    by (auto simp: tag_switch_isPkey tag_switch_primaryKeyCol tag_switch_primaryKeySQLType)
qed

lemma tag_loop_cols:
  "tag_loop name ty tags st = Inr st' \<Longrightarrow>
     cols st' = cols st @
        (if isPkey st then [] else replicate (length (takeWhile (\<lambda>t. t \<noteq> ''pkey'') tags)) name)
     \<and> sqlTypes st' = sqlTypes st @
        (if isPkey st then [] else replicate (length (takeWhile (\<lambda>t. t \<noteq> ''pkey'') tags)) ty)"
proof (induction tags arbitrary: st)
  case Nil
  then show ?case by simp
next
  case (Cons tag tags)
  from Cons.prems obtain st1 where
    st1: "tag_check name ty (tag_switch name ty tag st) = Inr st1"
    and rest: "tag_loop name ty tags st1 = Inr st'"
    by (auto split: sum.splits)
  from tag_check_Inr [OF st1] Cons.IH [OF rest] show ?case
    by (auto simp: tag_switch_isPkey tag_switch_cols replicate_app_Cons_same)
qed

lemma tag_loop_autoinc_keep:
  "tag_loop name ty tags st = Inr st' \<Longrightarrow> pkeyAutoInc st = '' AUTOINCREMENT'' \<Longrightarrow>
     pkeyAutoInc st' = '' AUTOINCREMENT''"
proof (induction tags arbitrary: st)
  case Nil
  then show ?case by simp
next
  case (Cons tag tags)
  from Cons.prems obtain st1 where
    st1: "tag_check name ty (tag_switch name ty tag st) = Inr st1"
    and rest: "tag_loop name ty tags st1 = Inr st'"
    by (auto split: sum.splits)
  from tag_check_Inr [OF st1] Cons.prems(2) have "pkeyAutoInc st1 = '' AUTOINCREMENT''"
    by (simp add: tag_switch_cols)
  with Cons.IH [OF rest] show ?case by simp
qed

lemma tag_loop_autoinc:
  "tag_loop name ty tags st = Inr st' \<Longrightarrow> \<not> autoIncrement st \<Longrightarrow>
     pkeyAutoInc st' = (if ''autoinc'' \<in> set tags then '' AUTOINCREMENT'' else pkeyAutoInc st)
     \<and> (''autoinc'' \<in> set tags \<longrightarrow>
          ty = ''INTEGER'' \<and> (isPkey st \<or> ''pkey'' \<in> set (takeWhile (\<lambda>t. t \<noteq> ''autoinc'') tags)))"
proof (induction tags arbitrary: st)
  case Nil
  then show ?case by simp
next
  case (Cons tag tags)
  from Cons.prems obtain st1 where
    st1: "tag_check name ty (tag_switch name ty tag st) = Inr st1"
    and rest: "tag_loop name ty tags st1 = Inr st'"
    by (auto split: sum.splits)
  note c = tag_check_Inr [OF st1]
  show ?case
  proof (cases "tag = ''autoinc''")
    case True
    with c have "pkeyAutoInc st1 = '' AUTOINCREMENT''" "ty = ''INTEGER''" "isPkey st"
      by (simp_all add: tag_switch_autoinc_True tag_switch_isPkey)
    with tag_loop_autoinc_keep [OF rest] True show ?thesis by simp
  next
    case False
    with c Cons.prems(2) have na: "\<not> autoIncrement st1" "pkeyAutoInc st1 = pkeyAutoInc st"
      "isPkey st1 = (isPkey st \<or> tag = ''pkey'')"
      by (simp_all add: tag_switch_autoinc_True tag_switch_isPkey tag_switch_cols)
    with Cons.IH [OF rest] False show ?thesis by auto
  qed
qed

lemma tag_loop_succeeds:
  "\<not> autoIncrement st \<Longrightarrow>
   ''autoinc'' \<in> set tags \<longrightarrow>
       ty = ''INTEGER'' \<and> (isPkey st \<or> ''pkey'' \<in> set (takeWhile (\<lambda>t. t \<noteq> ''autoinc'') tags)) \<Longrightarrow>
   \<exists>st'. tag_loop name ty tags st = Inr st'"
proof (induction tags arbitrary: st)
  case Nil
  then show ?case by simp
next
  case (Cons tag tags)
  show ?case
  proof (cases "tag = ''autoinc''")
    case True
    with Cons.prems have pk: "isPkey st" "ty = ''INTEGER''" by auto
    let ?s1 = "(tag_switch name ty tag st)\<lparr>pkeyAutoInc := '' AUTOINCREMENT''\<rparr>"
    from pk True have st1: "tag_check name ty (tag_switch name ty tag st) = Inr ?s1"
      by (simp add: tag_check_def tag_switch_isPkey tag_switch_autoinc_True)
    have "\<exists>st'. tag_loop name ty tags s1 = Inr st'" if "isPkey s1" for s1
      using that
    proof (induction tags arbitrary: s1)
      case Nil
      then show ?case by simp
    next
      case (Cons t ts)
      from Cons.prems have "isPkey (tag_switch name ty t s1)"
        by (simp add: tag_switch_isPkey)
      with pk(2) obtain s2 where
        s2: "tag_check name ty (tag_switch name ty t s1) = Inr s2" and "isPkey s2"
        using tag_check_ok_pkey by blast
      with Cons.IH [of s2] s2 show ?case by simp
    qed
    from this [of ?s1] pk st1 show ?thesis by (simp add: tag_switch_isPkey)
  next
    case False
    with Cons.prems(1) have na: "\<not> autoIncrement (tag_switch name ty tag st)"
      by (simp add: tag_switch_autoinc_True)
    then obtain st1 where st1: "tag_check name ty (tag_switch name ty tag st) = Inr st1"
      using tag_check_ok by blast
    with na have p1: "\<not> autoIncrement st1" "isPkey st1 = (isPkey st \<or> tag = ''pkey'')"
      by (auto dest: tag_check_Inr simp: tag_switch_isPkey)
    from Cons.prems(2) False p1
    have "''autoinc'' \<in> set tags \<longrightarrow>
       ty = ''INTEGER'' \<and> (isPkey st1 \<or> ''pkey'' \<in> set (takeWhile (\<lambda>t. t \<noteq> ''autoinc'') tags))"
      by auto
    from Cons.IH [OF p1(1) this] st1 show ?thesis by simp
  qed
qed

subsection \<open>The loop over the fields\<close>

lemma field_loop_filter: "field_loop fs st = field_loop (filter IsExported fs) st"
  by (induction fs arbitrary: st) (auto split: sum.splits)

lemma field_loop_append:
  "field_loop (xs @ ys) st =
     (case field_loop xs st of Inl e \<Rightarrow> Inl e | Inr st' \<Rightarrow> field_loop ys st')"
  by (induction xs arbitrary: st) (auto split: sum.splits)

lemma field_loop_single:
  "field_loop [f] st = Inr st' \<Longrightarrow>
     (if IsExported f
      then \<exists>ty. sqlTypeOf f = Inr ty \<and> tag_loop (Name f) ty (tags_of f) (field_start st) = Inr st'
      else st' = st)"
  by (auto split: sum.splits if_splits)

lemma field_loop_pk:
  "field_loop fs st = Inr st' \<Longrightarrow>
     (case filter has_pkey fs of
        [] \<Rightarrow> primaryKeyCol st' = primaryKeyCol st \<and> primaryKeySQLType st' = primaryKeySQLType st
      | p # ps \<Rightarrow> primaryKeyCol st' = Name (last (p # ps))
                 \<and> sqlTypeOf (last (p # ps)) = Inr (primaryKeySQLType st'))"
proof (induction fs arbitrary: st' rule: rev_induct)
  case Nil
  then show ?case by simp
next
  case (snoc f fs)
  from snoc.prems obtain st1 where
    st1: "field_loop fs st = Inr st1" and last: "field_loop [f] st1 = Inr st'"
    by (auto simp: field_loop_append split: sum.splits)
  note IH = snoc.IH [OF st1]
  show ?case
  proof (cases "IsExported f")
    case False
    with last have "st' = st1" by (auto dest: field_loop_single)
    with IH False show ?thesis by (auto simp: has_pkey_def split: list.splits)
  next
    case True
    with field_loop_single [OF last] obtain ty where
      ty: "sqlTypeOf f = Inr ty"
      and tl: "tag_loop (Name f) ty (tags_of f) (field_start st1) = Inr st'"
      by auto
    from tag_loop_pk [OF tl] IH True ty show ?thesis
      by (auto simp: has_pkey_def split: list.splits)
  qed
qed

lemma field_loop_cols:
  "field_loop fs st = Inr st' \<Longrightarrow>
     cols st' = cols st @ map fst (value_columns fs)
     \<and> sqlTypes st' = sqlTypes st @ map snd (value_columns fs)"
proof (induction fs arbitrary: st)
  case Nil
  then show ?case by (simp add: value_columns_def)
next
  case (Cons f fs)
  show ?case
  proof (cases "IsExported f")
    case False
    with Cons show ?thesis by (simp add: value_columns_def)
  next
    case True
    with Cons.prems obtain ty st1 where
      ty: "sqlTypeOf f = Inr ty"
      and tl: "tag_loop (Name f) ty (tags_of f) (field_start st) = Inr st1"
      and rest: "field_loop fs st1 = Inr st'"
      by (auto split: sum.splits)
    from tag_loop_cols [OF tl] Cons.IH [OF rest] True ty show ?thesis
      by (simp add: value_columns_def value_copies_def sql_type_def)
  qed
qed

lemma field_loop_Inl:
  "field_loop fs st = Inl e \<Longrightarrow>
     \<exists>f\<in>set fs. IsExported f \<and>
        (sqlTypeOf f = Inl e \<or> e = AutoincNotInteger (Name f) \<or> e = AutoincNotPkey (Name f))"
proof (induction fs arbitrary: st)
  case Nil
  then show ?case by simp
next
  case (Cons f fs)
  then show ?case
    by (auto split: sum.splits if_splits dest: tag_loop_Inl)
qed

lemma field_loop_succeeds_iff:
  "(\<exists>st'. field_loop fs st = Inr st') \<longleftrightarrow>
     (\<forall>f\<in>set fs. IsExported f \<longrightarrow> (\<exists>ty. sqlTypeOf f = Inr ty) \<and> autoinc_ok f)"
proof (induction fs arbitrary: st)
  case Nil
  then show ?case by simp
next
  case (Cons f fs)
  show ?case
  proof (cases "IsExported f")
    case False
    with Cons.IH [of st] show ?thesis by simp
  next
    case True
    show ?thesis
    proof (cases "sqlTypeOf f")
      case (Inl e)
      with True show ?thesis by auto
    next
      case (Inr ty)
      show ?thesis
      proof (cases "tag_loop (Name f) ty (tags_of f) (field_start st)")
        case (Inl e)
        have "\<not> autoinc_ok f"
        proof
          assume "autoinc_ok f"
          with Inr have "''autoinc'' \<in> set (tags_of f) \<longrightarrow> ty = ''INTEGER'' \<and>
            (isPkey (field_start st) \<or>
               ''pkey'' \<in> set (takeWhile (\<lambda>t. t \<noteq> ''autoinc'') (tags_of f)))"
            by (simp add: autoinc_ok_def)
          from tag_loop_succeeds [OF _ this, of "Name f"] Inl show False by simp
        qed
        with True Inr Inl show ?thesis by auto
      next
        case st1: (Inr st1)
        from tag_loop_autoinc [OF st1] Inr have "autoinc_ok f"
          by (simp add: autoinc_ok_def)
        with True Inr st1 Cons.IH [of st1] show ?thesis by simp
      qed
    qed
  qed
qed

lemma field_loop_autoinc_keep:
  "field_loop fs st = Inr st' \<Longrightarrow> pkeyAutoInc st = '' AUTOINCREMENT'' \<Longrightarrow>
     pkeyAutoInc st' = '' AUTOINCREMENT''"
proof (induction fs arbitrary: st)
  case Nil
  then show ?case by simp
next
  case (Cons f fs)
  then show ?case
    by (auto split: sum.splits if_splits
             dest!: tag_loop_autoinc_keep)
qed

lemma field_loop_autoinc:
  "field_loop fs st = Inr st' \<Longrightarrow>
     pkeyAutoInc st' =
       (if \<exists>f\<in>set fs. IsExported f \<and> ''autoinc'' \<in> set (tags_of f)
        then '' AUTOINCREMENT'' else pkeyAutoInc st)"
proof (induction fs arbitrary: st)
  case Nil
  then show ?case by simp
next
  case (Cons f fs)
  show ?case
  proof (cases "IsExported f")
    case False
    with Cons show ?thesis by simp
  next
    case True
    with Cons.prems obtain ty st1 where
      tl: "tag_loop (Name f) ty (tags_of f) (field_start st) = Inr st1"
      and rest: "field_loop fs st1 = Inr st'"
      by (auto split: sum.splits)
    from tag_loop_autoinc [OF tl] have
      a: "pkeyAutoInc st1 =
           (if ''autoinc'' \<in> set (tags_of f) then '' AUTOINCREMENT'' else pkeyAutoInc st)"
      by simp
    show ?thesis
    proof (cases "''autoinc'' \<in> set (tags_of f)")
      case t: True
      with a field_loop_autoinc_keep [OF rest] True show ?thesis by auto
    next
      case f: False
      with a Cons.IH [OF rest] True show ?thesis by auto
    qed
  qed
qed

lemma field_loop_no_pkey:
  assumes "field_loop fs st = Inr st'" and "\<forall>f\<in>set fs. \<not> has_pkey f"
  shows "primaryKeyCol st' = primaryKeyCol st"
proof -
  from assms(2) have "filter has_pkey fs = []" by (simp add: filter_empty_conv)
  with field_loop_pk [OF assms(1)] show ?thesis by simp
qed

lemma field_loop_plain:
  assumes "\<forall>f\<in>set fs. IsExported f \<longrightarrow> (\<exists>ty. sqlTypeOf f = Inr ty) \<and> ''autoinc'' \<notin> set (tags_of f)"
  shows "\<exists>st'. field_loop fs st = Inr st'"
  using assms unfolding field_loop_succeeds_iff by (auto simp: autoinc_ok_def)

lemma field_loop_lengths:
  "field_loop fs init_scan = Inr st \<Longrightarrow> length (sqlTypes st) = length (cols st)"
  by (drule field_loop_cols) (simp add: init_scan_def)

lemma create_stmt_text:
  assumes scan: "field_loop fs init_scan = Inr st" and pk: "primaryKeyCol st \<noteq> []"
  shows "filter has_pkey fs \<noteq> []"
    and "create_stmt n st =
      ''CREATE TABLE IF NOT EXISTS `'' @ n @ ''` (`'' @ Name (last (filter has_pkey fs)) @ ''` ''
        @ sql_type (last (filter has_pkey fs)) @ '' PRIMARY KEY''
        @ (if \<exists>f\<in>set fs. IsExported f \<and> ''autoinc'' \<in> set (tags_of f)
           then '' AUTOINCREMENT'' else [])
        @ '')''"
proof -
  show ne: "filter has_pkey fs \<noteq> []"
    using field_loop_pk [OF scan] pk by (auto simp: init_scan_def)
  then obtain p ps where pps: "filter has_pkey fs = p # ps" by (cases "filter has_pkey fs") auto
  with field_loop_pk [OF scan] have
    "primaryKeyCol st = Name (last (filter has_pkey fs))"
    "primaryKeySQLType st = sql_type (last (filter has_pkey fs))"
    by (simp_all add: sql_type_def)
  moreover from field_loop_autoinc [OF scan] have
    "pkeyAutoInc st = (if \<exists>f\<in>set fs. IsExported f \<and> ''autoinc'' \<in> set (tags_of f)
           then '' AUTOINCREMENT'' else [])"
    by (simp add: init_scan_def)
  ultimately show "create_stmt n st =
      ''CREATE TABLE IF NOT EXISTS `'' @ n @ ''` (`'' @ Name (last (filter has_pkey fs)) @ ''` ''
        @ sql_type (last (filter has_pkey fs)) @ '' PRIMARY KEY''
        @ (if \<exists>f\<in>set fs. IsExported f \<and> ''autoinc'' \<in> set (tags_of f)
           then '' AUTOINCREMENT'' else [])
        @ '')''"
    unfolding create_stmt_def by (simp only:)
qed

subsection \<open>The statements of CreateTableIfNotExists\<close>

lemma recording_apply:
  "recording ex (s, log) q a = (fst (ex s q a), (snd (ex s q a), log @ [(q, a)]))"
  by (simp add: recording_def split: prod.splits)

lemma alter_loop_Cons:
  "alter_loop ex n (c # cs) tys i s =
     (if i < length tys then
        (let r = ex s (alter_stmt n c (tys ! i)) [] in
         if (case fst r of Inl msg \<Rightarrow> \<not> Contains msg ''duplicate column name'' | Inr res \<Rightarrow> False)
         then (Some (ExecError (projl (fst r))), snd r)
         else alter_loop ex n cs tys (Suc i) (snd r))
      else (Some IndexOutOfRange, s))"
  by (simp split: prod.splits sum.splits)

lemma index_loop_Cons:
  "index_loop ex n (idx # rest) s =
     (let r = ex s (index_stmt n idx) [] in
      case fst r of Inl msg \<Rightarrow> (Some (ExecError msg), snd r)
      | Inr res \<Rightarrow> index_loop ex n rest (snd r))"
  by (simp split: prod.splits sum.splits)

lemma alter_loop_error:
  "alter_loop ex n cs tys i s = (Some e, s') \<Longrightarrow> i + length cs \<le> length tys \<Longrightarrow>
     \<exists>msg. e = ExecError msg"
proof (induction cs arbitrary: i s)
  case Nil
  then show ?case by simp
next
  case (Cons c cs)
  from Cons.prems(2) have i: "i < length tys" "Suc i + length cs \<le> length tys" by simp_all
  show ?case
  proof (cases "case fst (ex s (alter_stmt n c (tys ! i)) []) of
                  Inl msg \<Rightarrow> \<not> Contains msg ''duplicate column name'' | Inr res \<Rightarrow> False")
    case True
    with Cons.prems(1) i show ?thesis
      by (simp only: alter_loop_Cons Let_def if_True) auto
  next
    case False
    with Cons.prems(1) i
    have "alter_loop ex n cs tys (Suc i) (snd (ex s (alter_stmt n c (tys ! i)) [])) = (Some e, s')"
      by (simp only: alter_loop_Cons Let_def if_True if_False)
    from Cons.IH [OF this i(2)] show ?thesis .
  qed
qed

lemma index_loop_error:
  "index_loop ex n idxs s = (Some e, s') \<Longrightarrow> \<exists>msg. e = ExecError msg"
proof (induction idxs arbitrary: s)
  case Nil
  then show ?case by simp
next
  case (Cons idx idxs)
  show ?case
  proof (cases "fst (ex s (index_stmt n idx) [])")
    case (Inl msg)
    with Cons.prems show ?thesis by (simp only: index_loop_Cons Let_def sum.case) auto
  next
    case (Inr res)
    with Cons.prems have "index_loop ex n idxs (snd (ex s (index_stmt n idx) [])) = (Some e, s')"
      by (simp only: index_loop_Cons Let_def sum.case)
    from Cons.IH [OF this] show ?thesis .
  qed
qed

lemma CreateTableIfNotExists_scan_error:
  "field_loop (map fst fs) init_scan = Inl e \<Longrightarrow>
     CreateTableIfNotExists ex s (VStruct n fs) = (Some e, s)"
  by (simp add: CreateTableIfNotExists_def)

lemma CreateTableIfNotExists_after_scan:
  "field_loop (map fst fs) init_scan = Inr st \<Longrightarrow> primaryKeyCol st \<noteq> [] \<Longrightarrow>
     CreateTableIfNotExists ex s (VStruct n fs) =
       (case ex s (create_stmt n st) [] of
          (Inl msg, s1) \<Rightarrow> (Some (ExecError msg), s1)
        | (Inr res, s1) \<Rightarrow>
           (case alter_loop ex n (cols st) (sqlTypes st) 0 s1 of
              (Some e, s2) \<Rightarrow> (Some e, s2)
            | (None, s2) \<Rightarrow> index_loop ex n (indices st) s2))"
  by (simp add: CreateTableIfNotExists_def split: prod.splits sum.splits option.splits)

lemma CreateTableIfNotExists_errors:
  assumes "CreateTableIfNotExists ex s (VStruct n fs) = (Some e, s')"
  shows "field_loop (map fst fs) init_scan = Inl e \<or> e = NoPrimaryKey (VStruct n fs)
           \<or> (\<exists>msg. e = ExecError msg)"
proof (cases "field_loop (map fst fs) init_scan")
  case (Inl e')
  with assms show ?thesis by (simp add: CreateTableIfNotExists_def)
next
  case (Inr st)
  note len = field_loop_lengths [OF Inr]
  show ?thesis
  proof (cases "primaryKeyCol st = []")
    case True
    with assms Inr show ?thesis by (simp add: CreateTableIfNotExists_def)
  next
    case False
    note unf = CreateTableIfNotExists_after_scan [OF Inr False, of ex s n]
    obtain r s1 where c: "ex s (create_stmt n st) [] = (r, s1)" by (cases "ex s (create_stmt n st) []")
    show ?thesis
    proof (cases r)
      case (Inl msg)
      with assms unf c show ?thesis by auto
    next
      case r: (Inr res)
      obtain a s2 where al: "alter_loop ex n (cols st) (sqlTypes st) 0 s1 = (a, s2)"
        by (cases "alter_loop ex n (cols st) (sqlTypes st) 0 s1")
      show ?thesis
      proof (cases a)
        case None
        with assms unf c r al have "index_loop ex n (indices st) s2 = (Some e, s')" by simp
        then show ?thesis by (auto dest: index_loop_error)
      next
        case (Some e')
        with assms unf c r al have "e' = e" by simp
        with Some al len show ?thesis by (auto dest: alter_loop_error)
      qed
    qed
  qed
qed

lemma CreateTableIfNotExists_struct_accepted:
  "fst (CreateTableIfNotExists ex s (VStruct n fs)) \<noteq> Some (NotAStruct x)"
proof
  assume a: "fst (CreateTableIfNotExists ex s (VStruct n fs)) = Some (NotAStruct x)"
  then obtain s' where "CreateTableIfNotExists ex s (VStruct n fs) = (Some (NotAStruct x), s')"
    by (cases "CreateTableIfNotExists ex s (VStruct n fs)") simp
  from CreateTableIfNotExists_errors [OF this]
  have "field_loop (map fst fs) init_scan = Inl (NotAStruct x)"
    by simp
  from field_loop_Inl [OF this] obtain f where
    "sqlTypeOf f = Inl (NotAStruct x)" by auto
  from sqlTypeOf_error [OF this] show False by simp
qed

declare alter_loop.simps(2) [simp del] index_loop.simps(2) [simp del]

lemma alter_loop_append:
  "alter_loop ex n (xs @ ys) tys i s =
     (case alter_loop ex n xs tys i s of
        (Some e, s') \<Rightarrow> (Some e, s')
      | (None, s') \<Rightarrow> alter_loop ex n ys tys (i + length xs) s')"
proof (induction xs arbitrary: i s)
  case Nil
  show ?case by simp
next
  case (Cons x xs)
  show ?case
    by (simp add: alter_loop_Cons Let_def Cons.IH split: prod.splits option.splits)
qed

lemma alter_loop_recording_prefix:
  "\<exists>ext. snd (snd (alter_loop (recording ex) n cs tys i (s, log))) = log @ ext"
proof (induction cs arbitrary: i s log)
  case Nil
  show ?case by simp
next
  case (Cons c cs)
  let ?q = "alter_stmt n c (tys ! i)"
  from Cons.IH [of "Suc i" "snd (ex s ?q [])" "log @ [(?q, [])]"]
  show ?case
    by (auto simp: alter_loop_Cons Let_def recording_apply)
qed

lemma index_loop_recording_prefix:
  "\<exists>ext. snd (snd (index_loop (recording ex) n idxs (s, log))) = log @ ext"
proof (induction idxs arbitrary: s log)
  case Nil
  show ?case by simp
next
  case (Cons idx idxs)
  let ?q = "index_stmt n idx"
  from Cons.IH [of "snd (ex s ?q [])" "log @ [(?q, [])]"]
  show ?case
    by (auto simp: index_loop_Cons Let_def recording_apply split: sum.splits)
qed




lemma CreateTableIfNotExists_log_prefix:
  assumes scan: "field_loop (map fst fs) init_scan = Inr st" and pk: "primaryKeyCol st \<noteq> []"
  shows "\<exists>rest. snd (snd (CreateTableIfNotExists (recording ex) (s, log) (VStruct n fs)))
           = log @ (create_stmt n st, []) # rest"
proof -
  note unf = CreateTableIfNotExists_after_scan [OF scan pk, of "recording ex" "(s, log)" n]
  let ?l1 = "log @ [(create_stmt n st, [])]"
  obtain r t1 where c: "recording ex (s, log) (create_stmt n st) [] = (r, (t1, ?l1))"
    by (simp add: recording_apply)
  show ?thesis
  proof (cases r)
    case (Inl msg)
    with unf c show ?thesis by simp
  next
    case r: (Inr res)
    obtain a t2 l2 where al:
      "alter_loop (recording ex) n (cols st) (sqlTypes st) 0 (t1, ?l1) = (a, (t2, l2))"
      by (metis surj_pair)
    from alter_loop_recording_prefix [of ex n "cols st" "sqlTypes st" 0 t1 ?l1] al
    obtain ext where l2: "l2 = ?l1 @ ext" by auto
    show ?thesis
    proof (cases a)
      case (Some e)
      with unf c r al l2 show ?thesis by simp
    next
      case None
      from index_loop_recording_prefix [of ex n "indices st" t2 l2]
      obtain ext2 where "snd (snd (index_loop (recording ex) n (indices st) (t2, l2))) = l2 @ ext2"
        by blast
      with None unf c r al l2 show ?thesis by simp
    qed
  qed
qed

lemma CreateTableIfNotExists_exported:
  "snd (CreateTableIfNotExists ex s (VStruct n (exported_fields fs)))
     = snd (CreateTableIfNotExists ex s (VStruct n fs))
   \<and> (fst (CreateTableIfNotExists ex s (VStruct n (exported_fields fs)))
         = fst (CreateTableIfNotExists ex s (VStruct n fs))
      \<or> fst (CreateTableIfNotExists ex s (VStruct n (exported_fields fs)))
           = Some (NoPrimaryKey (VStruct n (exported_fields fs)))
        \<and> fst (CreateTableIfNotExists ex s (VStruct n fs)) = Some (NoPrimaryKey (VStruct n fs)))"
proof -
  have fl: "field_loop (map fst (exported_fields fs)) init_scan = field_loop (map fst fs) init_scan"
    using field_loop_filter [of "map fst fs" init_scan]
    by (simp add: exported_fields_def filter_map comp_def)
  show ?thesis
  proof (cases "field_loop (map fst fs) init_scan")
    case (Inl e)
    with fl show ?thesis by (simp add: CreateTableIfNotExists_def)
  next
    case (Inr st)
    show ?thesis
    proof (cases "primaryKeyCol st = []")
      case True
      with Inr fl show ?thesis by (simp add: CreateTableIfNotExists_def)
    next
      case False
      from Inr fl have "field_loop (map fst (exported_fields fs)) init_scan = Inr st" by simp
      from CreateTableIfNotExists_after_scan [OF this False, of ex s n]
        CreateTableIfNotExists_after_scan [OF Inr False, of ex s n]
      show ?thesis by (simp only:) simp
    qed
  qed
qed

subsection \<open>The loops and the statement of Upsert\<close>

lemma upsert_tags_eq:
  "upsert_tags tags v i ps =
     (if ''pkey'' \<in> set tags \<and> CanInt v \<and> Int_of v = 0 then (Some i, True) else ps)"
  by (induction tags arbitrary: ps) auto

lemma upsert_fields_append:
  "upsert_fields (xs @ ys) k acc = upsert_fields ys (k + length xs) (upsert_fields xs k acc)"
  by (induction xs arbitrary: k acc) (auto split: prod.splits)

lemma upsert_fields_cols:
  "ins_cols (upsert_fields fs k acc) =
     ins_cols acc @ map (\<lambda>fv. backquote (Name (fst fv))) (filter included fs)"
  by (induction fs arbitrary: k acc)
     (auto simp: upsert_tags_eq included_def zero_pkey_def)

lemma upsert_fields_qmarks:
  "qmarks (upsert_fields fs k acc) =
     qmarks acc @ replicate (length (filter included fs)) ''?''"
  by (induction fs arbitrary: k acc)
     (auto simp: upsert_tags_eq included_def zero_pkey_def replicate_app_Cons_same)

lemma upsert_fields_params:
  "params (upsert_fields fs k acc) = params acc @ map snd (filter included fs)"
  by (induction fs arbitrary: k acc)
     (auto simp: upsert_tags_eq included_def zero_pkey_def)

lemma upsert_fields_pk:
  "primaryKeyFieldToSet (upsert_fields fs k acc) =
     (case filter (\<lambda>i. zero_pkey (fs ! i)) [0..<length fs] of
        [] \<Rightarrow> primaryKeyFieldToSet acc
      | i # is \<Rightarrow> Some (k + last (i # is)))"
proof (induction fs arbitrary: acc rule: rev_induct)
  case Nil
  show ?case by simp
next
  case (snoc fv fs)
  let ?P = "filter (\<lambda>i. zero_pkey (fs ! i)) [0..<length fs]"
  have eq: "filter (\<lambda>i. zero_pkey ((fs @ [fv]) ! i)) [0..<length fs] = ?P"
    by (rule filter_cong) (auto simp: nth_append)
  have split: "filter (\<lambda>i. zero_pkey ((fs @ [fv]) ! i)) [0..<length (fs @ [fv])] =
      ?P @ (if zero_pkey fv then [length fs] else [])"
    by (simp add: eq)
  obtain f v where fv: "fv = (f, v)" by (cases fv)
  have step: "primaryKeyFieldToSet (upsert_fields [fv] j a) =
      (if zero_pkey fv then Some j else primaryKeyFieldToSet a)" for j a
    by (simp add: fv upsert_tags_eq zero_pkey_def)
  show ?case
    unfolding upsert_fields_append step snoc.IH split
    by (cases ?P) (simp_all split: list.splits)
qed

lemma Upsert_struct:
  "Upsert ex s (VPointer (Some (VStruct n fs))) ow =
     (let acc = upsert_fields fs 0 init_acc;
          r = ex s (insert_stmt ow n acc) (params acc)
      in case fst r of
           Inl msg \<Rightarrow> (Some (ExecError msg), VPointer (Some (VStruct n fs)), snd r)
         | Inr res \<Rightarrow>
            (case primaryKeyFieldToSet acc of
               None \<Rightarrow> (None, VPointer (Some (VStruct n fs)), snd r)
             | Some i \<Rightarrow>
                (case LastInsertId res of
                   Inl msg \<Rightarrow> (Some (ExecError msg), VPointer (Some (VStruct n fs)), snd r)
                 | Inr lastID \<Rightarrow>
                     (None,
                      VPointer (Some (VStruct n
                        (fs[i := (fst (fs ! i), SetInt (snd (fs ! i)) lastID)]))),
                      snd r))))"
  by (simp add: Upsert_def Let_def set_field_def split: prod.splits sum.splits option.splits)

lemma Upsert_pointer_to_struct_accepted:
  "fst (Upsert ex s (VPointer (Some (VStruct n fs))) ow) \<noteq> Some (NotAPtr x)
   \<and> fst (Upsert ex s (VPointer (Some (VStruct n fs))) ow) \<noteq> Some (NotAPtrToStruct y)"
  by (simp add: Upsert_struct Let_def split: sum.splits option.splits)

lemma init_acc_simps [simp]:
  "ins_cols init_acc = []" "qmarks init_acc = []" "params init_acc = []"
  "primaryKeyFieldToSet init_acc = None"
  by (simp_all add: init_acc_def)

lemma Upsert_error_keeps_instance:
  "fst (Upsert ex s (VPointer (Some (VStruct n fs))) ow) = Some e \<Longrightarrow>
     fst (snd (Upsert ex s (VPointer (Some (VStruct n fs))) ow)) = VPointer (Some (VStruct n fs))"
  by (auto simp: Upsert_struct Let_def split: sum.splits option.splits)

lemma included_exported: "filter included (exported_fields fs) = filter included fs"
  by (induction fs) (auto simp: exported_fields_def included_def)

lemma zero_pkey_indices_empty:
  "filter (\<lambda>i. zero_pkey (fs ! i)) [0..<length fs] = [] \<longleftrightarrow> (\<forall>fv\<in>set fs. \<not> zero_pkey fv)"
  by (auto simp: filter_empty_conv all_set_conv_all_nth)

lemma zero_pkey_exported:
  "(\<forall>fv\<in>set (exported_fields fs). \<not> zero_pkey fv) \<longleftrightarrow> (\<forall>fv\<in>set fs. \<not> zero_pkey fv)"
  by (auto simp: exported_fields_def zero_pkey_def)

lemma upsert_fields_pk0:
  "primaryKeyFieldToSet (upsert_fields fs 0 init_acc) =
     (if filter (\<lambda>i. zero_pkey (fs ! i)) [0..<length fs] = [] then None
      else Some (last (filter (\<lambda>i. zero_pkey (fs ! i)) [0..<length fs])))"
  by (simp add: upsert_fields_pk split: list.splits)

lemma upsert_fields_exported:
  "ins_cols (upsert_fields (exported_fields fs) 0 init_acc) = ins_cols (upsert_fields fs 0 init_acc)"
  "qmarks (upsert_fields (exported_fields fs) 0 init_acc) = qmarks (upsert_fields fs 0 init_acc)"
  "params (upsert_fields (exported_fields fs) 0 init_acc) = params (upsert_fields fs 0 init_acc)"
  "primaryKeyFieldToSet (upsert_fields (exported_fields fs) 0 init_acc) = None
     \<longleftrightarrow> primaryKeyFieldToSet (upsert_fields fs 0 init_acc) = None"
proof -
  show "ins_cols (upsert_fields (exported_fields fs) 0 init_acc)
          = ins_cols (upsert_fields fs 0 init_acc)"
    by (simp add: upsert_fields_cols included_exported)
  show "qmarks (upsert_fields (exported_fields fs) 0 init_acc)
          = qmarks (upsert_fields fs 0 init_acc)"
    by (simp add: upsert_fields_qmarks included_exported)
  show "params (upsert_fields (exported_fields fs) 0 init_acc)
          = params (upsert_fields fs 0 init_acc)"
    by (simp add: upsert_fields_params included_exported)
  have "primaryKeyFieldToSet (upsert_fields gs 0 init_acc) = None
          \<longleftrightarrow> (\<forall>fv\<in>set gs. \<not> zero_pkey fv)" for gs
    by (simp add: upsert_fields_pk0 zero_pkey_indices_empty)
  then show "primaryKeyFieldToSet (upsert_fields (exported_fields fs) 0 init_acc) = None
     \<longleftrightarrow> primaryKeyFieldToSet (upsert_fields fs 0 init_acc) = None"
    by (simp add: zero_pkey_exported)
qed

lemma insert_stmt_cong:
  "ins_cols a = ins_cols b \<Longrightarrow> qmarks a = qmarks b \<Longrightarrow> insert_stmt ow n a = insert_stmt ow n b"
  by (simp add: insert_stmt_def)

lemma Upsert_exported:
  "fst (Upsert ex s (VPointer (Some (VStruct n (exported_fields fs)))) ow)
     = fst (Upsert ex s (VPointer (Some (VStruct n fs))) ow)
   \<and> snd (snd (Upsert ex s (VPointer (Some (VStruct n (exported_fields fs)))) ow))
     = snd (snd (Upsert ex s (VPointer (Some (VStruct n fs))) ow))"
proof -
  let ?a = "upsert_fields (exported_fields fs) 0 init_acc"
  let ?b = "upsert_fields fs 0 init_acc"
  have stmt: "insert_stmt ow n ?a = insert_stmt ow n ?b"
    by (rule insert_stmt_cong) (simp_all add: upsert_fields_exported)
  have par: "params ?a = params ?b" by (simp add: upsert_fields_exported)
  have pk: "primaryKeyFieldToSet ?a = None \<longleftrightarrow> primaryKeyFieldToSet ?b = None"
    by (rule upsert_fields_exported)
  show ?thesis
  proof (cases "primaryKeyFieldToSet ?b")
    case None
    with pk have "primaryKeyFieldToSet ?a = None" by simp
    with None show ?thesis
      by (simp add: Upsert_struct Let_def stmt par split: sum.splits)
  next
    case (Some i)
    with pk obtain j where "primaryKeyFieldToSet ?a = Some j" by auto
    with Some show ?thesis
      by (simp add: Upsert_struct Let_def stmt par split: sum.splits)
  qed
qed

lemma Upsert_unexported_untouched:
  "\<exists>fs'. fst (snd (Upsert ex s (VPointer (Some (VStruct n fs))) ow)) = VPointer (Some (VStruct n fs'))
      \<and> length fs' = length fs
      \<and> (\<forall>i<length fs. \<not> IsExported (fst (fs ! i)) \<longrightarrow> fs' ! i = fs ! i)"
proof (cases "primaryKeyFieldToSet (upsert_fields fs 0 init_acc)")
  case None
  then have "fst (snd (Upsert ex s (VPointer (Some (VStruct n fs))) ow))
      = VPointer (Some (VStruct n fs))"
    by (simp add: Upsert_struct Let_def split: sum.splits)
  then show ?thesis by simp
next
  case (Some k)
  let ?zs = "filter (\<lambda>i. zero_pkey (fs ! i)) [0..<length fs]"
  from Some have ne: "?zs \<noteq> []" and k: "k = last ?zs"
    by (auto simp: upsert_fields_pk0 split: if_splits)
  from last_in_set [OF ne] k have "zero_pkey (fs ! k)" by simp
  then have ex: "IsExported (fst (fs ! k))" by (simp add: zero_pkey_def)
  let ?r = "ex s (insert_stmt ow n (upsert_fields fs 0 init_acc))
              (params (upsert_fields fs 0 init_acc))"
  have "fst (snd (Upsert ex s (VPointer (Some (VStruct n fs))) ow)) = VPointer (Some (VStruct n fs))
      \<or> (\<exists>v. fst (snd (Upsert ex s (VPointer (Some (VStruct n fs))) ow))
              = VPointer (Some (VStruct n (fs[k := v]))))"
  proof (cases "fst ?r")
    case (Inl msg)
    then show ?thesis by (simp add: Upsert_struct Let_def)
  next
    case (Inr res)
    show ?thesis
    proof (cases "LastInsertId res")
      case (Inl msg)
      with Inr Some show ?thesis by (simp add: Upsert_struct Let_def)
    next
      case id: (Inr lastID)
      with Inr Some show ?thesis by (auto simp: Upsert_struct Let_def)
    qed
  qed
  then show ?thesis
  proof
    assume "fst (snd (Upsert ex s (VPointer (Some (VStruct n fs))) ow))
      = VPointer (Some (VStruct n fs))"
    then show ?thesis by simp
  next
    assume "\<exists>v. fst (snd (Upsert ex s (VPointer (Some (VStruct n fs))) ow))
              = VPointer (Some (VStruct n (fs[k := v])))"
    then obtain v where v: "fst (snd (Upsert ex s (VPointer (Some (VStruct n fs))) ow))
              = VPointer (Some (VStruct n (fs[k := v])))" ..
    have "\<forall>i<length fs. \<not> IsExported (fst (fs ! i)) \<longrightarrow> (fs[k := v]) ! i = fs ! i"
    proof (intro allI impI)
      fix i assume "i < length fs" "\<not> IsExported (fst (fs ! i))"
      with ex have "i \<noteq> k" by auto
      then show "(fs[k := v]) ! i = fs ! i" by simp
    qed
    with v show ?thesis by simp
  qed
qed

subsection \<open>The functions on the sample inputs\<close>

lemmas scan_eval =
  mk_field_def IsExported_def tags_of_def sqlTypeOf_def init_scan_def field_start_def
  tag_switch_def tag_check_def uniqueWithRegexp_def indexWithRegexp_def submatch_at_def

lemmas call_eval =
  CreateTableIfNotExists_def recording_def accept_all_def reject_all_def
  create_stmt_def alter_stmt_def index_stmt_def backquote_def
  alter_loop.simps index_loop.simps



lemma unbalanced_with_call:
  "CreateTableIfNotExists (recording accept_all) ((), []) (VStruct ''T'' unbalanced_with) =
     (None, ((), [(''CREATE TABLE IF NOT EXISTS `T` (`Id` INTEGER PRIMARY KEY)'', []),
                  (''ALTER TABLE `T` ADD COLUMN `A` INTEGER'', [])]))"
  by (simp add: unbalanced_with_def scan_eval call_eval)

lemma empty_with_call:
  "CreateTableIfNotExists (recording accept_all) ((), []) (VStruct ''T'' empty_with) =
     (None, ((), [(''CREATE TABLE IF NOT EXISTS `T` (`Id` INTEGER PRIMARY KEY)'', []),
                  (''ALTER TABLE `T` ADD COLUMN `A` INTEGER'', []),
                  (''CREATE UNIQUE INDEX IF NOT EXISTS `T.A,` ON `T` (`A`,``)'', [])]))"
  by (simp add: empty_with_def scan_eval call_eval)

lemma secret_in_index_call:
  "CreateTableIfNotExists (recording accept_all) ((), []) (VStruct ''T'' secret_in_index) =
     (None, ((), [(''CREATE TABLE IF NOT EXISTS `T` (`Id` INTEGER PRIMARY KEY)'', []),
                  (''ALTER TABLE `T` ADD COLUMN `A` INTEGER'', []),
                  (''CREATE UNIQUE INDEX IF NOT EXISTS `T.A,secret` ON `T` (`A`,`secret`)'', [])]))"
  by (simp add: secret_in_index_def scan_eval call_eval)

lemma map_then_autoinc_call:
  "CreateTableIfNotExists (recording accept_all) ((), []) (VStruct ''T'' map_then_autoinc) =
     (Some (UnsupportedType (mk_field ''Data'' (TMap TString TInt) [])), ((), []))"
  by (simp add: map_then_autoinc_def scan_eval call_eval)

lemmas upsert_eval =
  mk_field_def IsExported_def tags_of_def CanInt_def init_acc_def insert_stmt_def backquote_def
  accept_all_def reject_all_def recording_def

lemma int64_pkey_zero:
  "filter (\<lambda>i. zero_pkey (int64_pkey ! i)) [0..<length int64_pkey] = [0]"
  by (simp add: int64_pkey_def zero_pkey_def upsert_eval upt_rec)

lemma unbalanced_with_rejected:
  "CreateTableIfNotExists (reject_all ''disk full'') () (VStruct ''T'' unbalanced_with)
     = (Some (ExecError ''disk full''), ())"
  by (simp add: unbalanced_with_def scan_eval call_eval)

lemma id_and_name_scan:
  "field_loop (map fst id_and_name) init_scan =
     Inr \<lparr>primaryKeyCol = ''Id'', primaryKeySQLType = ''INTEGER'', pkeyAutoInc = [],
          cols = [''Name''], sqlTypes = [''TEXT''], indices = [], isPkey = False,
          autoIncrement = False\<rparr>"
  by (simp add: id_and_name_def scan_eval)

section \<open>The claims\<close>

subsection \<open>C1: the primary key that Upsert leaves out and writes back\<close>

text \<open>
  Claim C1, as the code has it. For a struct passed by pointer to \<open>Upsert\<close>, the column
  list and the parameter list of the INSERT hold, in declaration order, exactly the
  exported fields that are not \<open>zero_pkey\<close>: a field is left out when it is exported,
  one of its tokens is \<open>pkey\<close>, its value is of a signed integer kind (\<open>CanInt\<close>) and
  equals zero; every other exported field, a \<open>pkey\<close> field with a non-zero value or of
  an unsigned kind among them, is included like any other column. When some field is
  left out, the statement succeeds and \<open>LastInsertId\<close> succeeds, the id, converted to
  the width of the field, is written into the last field that was left out and nothing
  else changes. When no field is left out, and whenever the call returns an error, the
  instance is as it was.
\<close>

theorem upsert_backfills_signed_zero_pkey:
  "let p = VPointer (Some (VStruct n fs));
       acc = upsert_fields fs 0 init_acc;
       zs = filter (\<lambda>i. zero_pkey (fs ! i)) [0..<length fs]
   in ins_cols acc = map (\<lambda>fv. backquote (Name (fst fv))) (filter included fs)
    \<and> params acc = map snd (filter included fs)
    \<and> (zs \<noteq> [] \<and> ex s (insert_stmt overwrite n acc) (params acc) = (Inr res, s')
           \<and> LastInsertId res = Inr lastID \<longrightarrow>
         Upsert ex s p overwrite =
           (None,
            VPointer (Some (VStruct n
              (fs[last zs := (fst (fs ! last zs), SetInt (snd (fs ! last zs)) lastID)]))),
            s'))
    \<and> (zs = [] \<longrightarrow> fst (snd (Upsert ex s p overwrite)) = p)
    \<and> (fst (Upsert ex s p overwrite) = Some e \<longrightarrow> fst (snd (Upsert ex s p overwrite)) = p)"
proof -
  let ?p = "VPointer (Some (VStruct n fs))"
  let ?acc = "upsert_fields fs 0 init_acc"
  let ?zs = "filter (\<lambda>i. zero_pkey (fs ! i)) [0..<length fs]"
  have a: "ins_cols ?acc = map (\<lambda>fv. backquote (Name (fst fv))) (filter included fs)"
    by (simp add: upsert_fields_cols)
  have b: "params ?acc = map snd (filter included fs)"
    by (simp add: upsert_fields_params)
  have pk: "primaryKeyFieldToSet ?acc = (if ?zs = [] then None else Some (last ?zs))"
    by (simp add: upsert_fields_pk split: list.splits)
  have c: "?zs \<noteq> [] \<and> ex s (insert_stmt overwrite n ?acc) (params ?acc) = (Inr res, s')
           \<and> LastInsertId res = Inr lastID \<longrightarrow>
         Upsert ex s ?p overwrite =
           (None,
            VPointer (Some (VStruct n
              (fs[last ?zs := (fst (fs ! last ?zs), SetInt (snd (fs ! last ?zs)) lastID)]))),
            s')"
    by (simp add: Upsert_struct Let_def pk)
  have d: "?zs = [] \<longrightarrow> fst (snd (Upsert ex s ?p overwrite)) = ?p"
    by (simp add: Upsert_struct Let_def pk split: sum.splits)
  have e: "fst (Upsert ex s ?p overwrite) = Some e \<longrightarrow>
             fst (snd (Upsert ex s ?p overwrite)) = ?p"
    by (intro impI) (rule Upsert_error_keeps_instance)
  show ?thesis
    unfolding Let_def by (rule conjI [OF a conjI [OF b conjI [OF c conjI [OF d e]]]])
qed

text \<open>
  C1 as stated fails for a \<open>pkey\<close> field of kind \<open>uint\<close> equal to zero: the field is an
  ordinary column of the INSERT with parameter 0, and it is still 0 after the executor
  has reported success with the last inserted id 7.
\<close>

theorem uint_zero_pkey_is_inserted:
  "Upsert (recording accept_all) ((), []) (VPointer (Some (VStruct ''T'' uint_pkey))) False =
     (None, VPointer (Some (VStruct ''T'' uint_pkey)),
      ((), [(''INSERT INTO `T` (`Id`) VALUES (?)'', [VUint 0])]))"
  by (simp add: Upsert_def uint_pkey_def upsert_eval)

text \<open>C1 at an \<open>int64\<close> key equal to zero: the id 7 is written back.\<close>

theorem upsert_backfills_signed_zero_pkey_witness:
  "Upsert accept_all () (VPointer (Some (VStruct ''T'' int64_pkey))) False =
     (None,
      VPointer (Some (VStruct ''T''
        [(mk_field ''Id'' TInt64 ''pkey'', VInt64 7), (mk_field ''Name'' TString [], VString ''x'')])),
      ())"
  using upsert_backfills_signed_zero_pkey
          [where fs = int64_pkey and overwrite = False and n = "''T''" and ex = accept_all
             and s = "()" and res = "Result (Inr 7)" and s' = "()" and lastID = 7]
  by (simp add: Let_def int64_pkey_zero) (simp add: int64_pkey_def accept_all_def)

subsection \<open>C2: several fields tagged pkey\<close>




subsection \<open>C3: uniqueWith and indexWith tokens that do not parse\<close>

text \<open>
  Claim C3, as the code has it. No token makes the parsing of an annotation fail as
  malformed. A token without a closing parenthesis that is none of the four bare
  directives changes nothing: it is ignored like any unrecognised token. The tokens
  \<open>uniqueWith()\<close> and \<open>indexWith()\<close> add an index over the field and a column with the
  empty name. When every exported field has a supported type and none carries
  \<open>autoinc\<close>, the only errors \<open>CreateTableIfNotExists\<close> can return are the missing
  primary key and a failure of the executor.
\<close>

theorem with_tokens_never_malformed:
  "(CHR '')'' \<notin> set tag \<and> tag \<notin> {''unique'', ''index'', ''pkey'', ''autoinc''} \<longrightarrow>
      tag_switch name ty tag st = st)
   \<and> tag_switch name ty ''uniqueWith()'' st = st\<lparr>indices := indices st @ [Index [name, []] True]\<rparr>
   \<and> tag_switch name ty ''indexWith()'' st = st\<lparr>indices := indices st @ [Index [name, []] False]\<rparr>
   \<and> ((\<forall>f\<in>set (map fst fs). IsExported f \<longrightarrow>
          (\<exists>ty. sqlTypeOf f = Inr ty) \<and> ''autoinc'' \<notin> set (tags_of f)) \<longrightarrow>
       (\<forall>e s'. CreateTableIfNotExists ex s (VStruct n fs) = (Some e, s') \<longrightarrow>
          e = NoPrimaryKey (VStruct n fs) \<or> (\<exists>msg. e = ExecError msg)))"
proof -
  have a: "CHR '')'' \<notin> set tag \<and> tag \<notin> {''unique'', ''index'', ''pkey'', ''autoinc''} \<longrightarrow>
      tag_switch name ty tag st = st"
    by (simp add: tag_switch_def no_close_no_submatch)
  have b: "tag_switch name ty ''uniqueWith()'' st
             = st\<lparr>indices := indices st @ [Index [name, []] True]\<rparr>"
    by (simp add: tag_switch_def submatch_uniqueWith_empty del: FindStringSubmatch.simps)
  have c: "tag_switch name ty ''indexWith()'' st
             = st\<lparr>indices := indices st @ [Index [name, []] False]\<rparr>"
    by (simp add: tag_switch_def submatch_indexWith_empty del: FindStringSubmatch.simps)
  have d: "(\<forall>f\<in>set (map fst fs). IsExported f \<longrightarrow>
          (\<exists>ty. sqlTypeOf f = Inr ty) \<and> ''autoinc'' \<notin> set (tags_of f)) \<longrightarrow>
       (\<forall>e s'. CreateTableIfNotExists ex s (VStruct n fs) = (Some e, s') \<longrightarrow>
          e = NoPrimaryKey (VStruct n fs) \<or> (\<exists>msg. e = ExecError msg))"
  proof (intro impI allI)
    fix e s'
    assume ok: "\<forall>f\<in>set (map fst fs). IsExported f \<longrightarrow>
          (\<exists>ty. sqlTypeOf f = Inr ty) \<and> ''autoinc'' \<notin> set (tags_of f)"
      and r: "CreateTableIfNotExists ex s (VStruct n fs) = (Some e, s')"
    from field_loop_plain [OF ok] obtain st where "field_loop (map fst fs) init_scan = Inr st"
      by blast
    with CreateTableIfNotExists_errors [OF r]
    show "e = NoPrimaryKey (VStruct n fs) \<or> (\<exists>msg. e = ExecError msg)" by auto
  qed
  show ?thesis by (rule conjI [OF a conjI [OF b conjI [OF c d]]])
qed

text \<open>
  C3 as stated fails for the token \<open>uniqueWith(\<close> and for the token \<open>uniqueWith()\<close>: in
  both cases the call returns no error; the first token leaves no trace in the
  statements, the second creates a unique index over \<open>A\<close> and the empty column name.
\<close>

theorem malformed_with_tokens_accepted:
  "CreateTableIfNotExists (recording accept_all) ((), []) (VStruct ''T'' unbalanced_with) =
     (None, ((), [(''CREATE TABLE IF NOT EXISTS `T` (`Id` INTEGER PRIMARY KEY)'', []),
                  (''ALTER TABLE `T` ADD COLUMN `A` INTEGER'', [])]))
   \<and> CreateTableIfNotExists (recording accept_all) ((), []) (VStruct ''T'' empty_with) =
     (None, ((), [(''CREATE TABLE IF NOT EXISTS `T` (`Id` INTEGER PRIMARY KEY)'', []),
                  (''ALTER TABLE `T` ADD COLUMN `A` INTEGER'', []),
                  (''CREATE UNIQUE INDEX IF NOT EXISTS `T.A,` ON `T` (`A`,``)'', [])]))"
  by (simp only: unbalanced_with_call empty_with_call)

text \<open>C3 at the token \<open>uniqueWith(\<close> and an executor that rejects every statement.\<close>

theorem with_tokens_never_malformed_witness:
  "tag_switch ''A'' ''INTEGER'' ''uniqueWith('' init_scan = init_scan
   \<and> (ExecError ''disk full'' = NoPrimaryKey (VStruct ''T'' unbalanced_with)
        \<or> (\<exists>msg. ExecError ''disk full'' = ExecError msg))"
  using with_tokens_never_malformed
          [where tag = "''uniqueWith(''" and name = "''A''" and ty = "''INTEGER''"
             and st = init_scan and fs = unbalanced_with and ex = "reject_all ''disk full''"
             and s = "()" and n = "''T''"]
        unbalanced_with_rejected
  by (simp add: unbalanced_with_def mk_field_def IsExported_def tags_of_def sqlTypeOf_def)

subsection \<open>C4: autoinc\<close>

text \<open>
  Claim C4, as the code has it, for a record type whose exported fields all have a
  supported type. If some exported field carries \<open>autoinc\<close> and either carries no
  \<open>pkey\<close> or does not resolve to INTEGER, the call returns one of the two
  auto-increment errors and the executor is not invoked. If every exported field that
  carries \<open>autoinc\<close> resolves to INTEGER and has a \<open>pkey\<close> token before its first
  \<open>autoinc\<close> token (\<open>autoinc_ok\<close>), the call returns neither of these errors, and when
  there is such a field (field names being non-empty) the first statement issued is the
  CREATE TABLE that declares the primary-key column with AUTOINCREMENT. Nothing is said
  here about a field whose \<open>autoinc\<close> token comes before its \<open>pkey\<close> token.
\<close>

theorem autoinc_needs_integer_pkey:
  assumes supported: "\<forall>f\<in>set (map fst fs). IsExported f \<longrightarrow> (\<exists>ty. sqlTypeOf f = Inr ty)"
  shows "((\<exists>f\<in>set (map fst fs). IsExported f \<and> ''autoinc'' \<in> set (tags_of f)
             \<and> (''pkey'' \<notin> set (tags_of f) \<or> sqlTypeOf f \<noteq> Inr ''INTEGER'')) \<longrightarrow>
          (\<exists>x. CreateTableIfNotExists (recording ex) (s, log) (VStruct n fs)
                  = (Some (AutoincNotPkey x), (s, log))
              \<or> CreateTableIfNotExists (recording ex) (s, log) (VStruct n fs)
                  = (Some (AutoincNotInteger x), (s, log))))
    \<and> ((\<forall>f\<in>set (map fst fs). IsExported f \<longrightarrow> autoinc_ok f) \<longrightarrow>
          (\<forall>x. fst (CreateTableIfNotExists (recording ex) (s, log) (VStruct n fs))
                  \<noteq> Some (AutoincNotPkey x)
              \<and> fst (CreateTableIfNotExists (recording ex) (s, log) (VStruct n fs))
                  \<noteq> Some (AutoincNotInteger x))
          \<and> ((\<exists>f\<in>set (map fst fs). IsExported f \<and> ''autoinc'' \<in> set (tags_of f))
               \<and> (\<forall>f\<in>set (map fst fs). Name f \<noteq> []) \<longrightarrow>
              (\<exists>rest. snd (snd (CreateTableIfNotExists (recording ex) (s, log) (VStruct n fs)))
                 = log @ (''CREATE TABLE IF NOT EXISTS `'' @ n @ ''` (`''
                            @ Name (last (filter has_pkey (map fst fs))) @ ''` ''
                            @ sql_type (last (filter has_pkey (map fst fs)))
                            @ '' PRIMARY KEY AUTOINCREMENT)'', []) # rest)))"
proof (intro conjI impI)
  let ?call = "CreateTableIfNotExists (recording ex) (s, log) (VStruct n fs)"
  assume bad: "\<exists>f\<in>set (map fst fs). IsExported f \<and> ''autoinc'' \<in> set (tags_of f)
             \<and> (''pkey'' \<notin> set (tags_of f) \<or> sqlTypeOf f \<noteq> Inr ''INTEGER'')"
  then obtain f where f: "f \<in> set (map fst fs)" "IsExported f" "''autoinc'' \<in> set (tags_of f)"
    "''pkey'' \<notin> set (tags_of f) \<or> sqlTypeOf f \<noteq> Inr ''INTEGER''" by blast
  have "\<not> autoinc_ok f"
    using f(3,4) by (auto simp: autoinc_ok_def dest: set_takeWhileD)
  with f(1,2) have "\<not> (\<exists>st. field_loop (map fst fs) init_scan = Inr st)"
    unfolding field_loop_succeeds_iff by blast
  then obtain e where e: "field_loop (map fst fs) init_scan = Inl e"
    by (cases "field_loop (map fst fs) init_scan") auto
  from field_loop_Inl [OF e] obtain g where g: "g \<in> set (map fst fs)" "IsExported g"
    "sqlTypeOf g = Inl e \<or> e = AutoincNotInteger (Name g) \<or> e = AutoincNotPkey (Name g)"
    by (elim bexE conjE)
  from supported g(1,2) obtain ty where "sqlTypeOf g = Inr ty" by auto
  with g(3) have "e = AutoincNotInteger (Name g) \<or> e = AutoincNotPkey (Name g)" by simp
  with CreateTableIfNotExists_scan_error [OF e, of "recording ex" "(s, log)" n]
  show "\<exists>x. ?call = (Some (AutoincNotPkey x), (s, log))
           \<or> ?call = (Some (AutoincNotInteger x), (s, log))"
    by auto
next
  let ?call = "CreateTableIfNotExists (recording ex) (s, log) (VStruct n fs)"
  assume ok: "\<forall>f\<in>set (map fst fs). IsExported f \<longrightarrow> autoinc_ok f"
  with supported obtain st where scan: "field_loop (map fst fs) init_scan = Inr st"
    using field_loop_succeeds_iff [of "map fst fs" init_scan] by blast
  show "\<forall>x. fst ?call \<noteq> Some (AutoincNotPkey x) \<and> fst ?call \<noteq> Some (AutoincNotInteger x)"
  proof (intro allI)
    fix x
    obtain r t where call: "?call = (r, t)" by (cases ?call)
    show "fst ?call \<noteq> Some (AutoincNotPkey x) \<and> fst ?call \<noteq> Some (AutoincNotInteger x)"
    proof (cases r)
      case None
      with call show ?thesis by simp
    next
      case (Some e)
      with call CreateTableIfNotExists_errors [of "recording ex" "(s, log)" n fs e t] scan
      show ?thesis by auto
    qed
  qed
next
  let ?call = "CreateTableIfNotExists (recording ex) (s, log) (VStruct n fs)"
  let ?pk = "last (filter has_pkey (map fst fs))"
  assume ok: "\<forall>f\<in>set (map fst fs). IsExported f \<longrightarrow> autoinc_ok f"
    and ai: "(\<exists>f\<in>set (map fst fs). IsExported f \<and> ''autoinc'' \<in> set (tags_of f))
               \<and> (\<forall>f\<in>set (map fst fs). Name f \<noteq> [])"
  from ok supported obtain st where scan: "field_loop (map fst fs) init_scan = Inr st"
    using field_loop_succeeds_iff [of "map fst fs" init_scan] by blast
  from ai obtain f where f: "f \<in> set (map fst fs)" "IsExported f" "''autoinc'' \<in> set (tags_of f)"
    by blast
  with ok have "''pkey'' \<in> set (tags_of f)"
    by (auto simp: autoinc_ok_def dest: set_takeWhileD)
  with f have ne: "filter has_pkey (map fst fs) \<noteq> []"
    by (auto simp: filter_empty_conv has_pkey_def)
  then have "?pk \<in> set (map fst fs)"
    using last_in_set [OF ne] by auto
  with ai have "Name ?pk \<noteq> []" by blast
  moreover from ne field_loop_pk [OF scan] have "primaryKeyCol st = Name ?pk"
    by (cases "filter has_pkey (map fst fs)") simp_all
  ultimately have pk: "primaryKeyCol st \<noteq> []" by simp
  have "create_stmt n st = ''CREATE TABLE IF NOT EXISTS `'' @ n @ ''` (`''
                            @ Name ?pk @ ''` '' @ sql_type ?pk
                            @ '' PRIMARY KEY AUTOINCREMENT)''"
    unfolding create_stmt_text(2) [OF scan pk] using ai by (simp only: if_True) simp
  with CreateTableIfNotExists_log_prefix [OF scan pk, of ex s log n]
  show "\<exists>rest. snd (snd ?call) = log @ (''CREATE TABLE IF NOT EXISTS `'' @ n @ ''` (`''
                            @ Name ?pk @ ''` '' @ sql_type ?pk
                            @ '' PRIMARY KEY AUTOINCREMENT)'', []) # rest"
    by (simp only:)
qed

text \<open>
  C4 as stated fails for a struct whose first field is a map and whose second field
  carries \<open>autoinc\<close> without \<open>pkey\<close>: the call returns the unsupported-type error of
  the first field, not an auto-increment error.
\<close>

theorem unsupported_type_precedes_autoinc:
  "CreateTableIfNotExists (recording accept_all) ((), []) (VStruct ''T'' map_then_autoinc) =
     (Some (UnsupportedType (mk_field ''Data'' (TMap TString TInt) [])), ((), []))"
  by (rule map_then_autoinc_call)

text \<open>
  C4 at a struct whose only field carries \<open>autoinc\<close> alone, and at a struct whose key
  carries \<open>pkey,autoinc\<close>.
\<close>

theorem autoinc_needs_integer_pkey_witness:
  "(\<exists>x. CreateTableIfNotExists (recording accept_all) ((), []) (VStruct ''T'' only_autoinc)
            = (Some (AutoincNotPkey x), ((), []))
        \<or> CreateTableIfNotExists (recording accept_all) ((), []) (VStruct ''T'' only_autoinc)
            = (Some (AutoincNotInteger x), ((), [])))
   \<and> (\<exists>rest. snd (snd (CreateTableIfNotExists (recording accept_all) ((), [])
                         (VStruct ''T'' pkey_autoinc)))
         = (''CREATE TABLE IF NOT EXISTS `T` (`Id` INTEGER PRIMARY KEY AUTOINCREMENT)'', []) # rest)"
proof -
  have bad: "\<exists>x. CreateTableIfNotExists (recording accept_all) ((), []) (VStruct ''T'' only_autoinc)
            = (Some (AutoincNotPkey x), ((), []))
        \<or> CreateTableIfNotExists (recording accept_all) ((), []) (VStruct ''T'' only_autoinc)
            = (Some (AutoincNotInteger x), ((), []))"
    using autoinc_needs_integer_pkey
            [where fs = only_autoinc and ex = accept_all and s = "()" and log = "[]"
               and n = "''T''", THEN conjunct1]
    by (simp add: only_autoinc_def mk_field_def IsExported_def tags_of_def sqlTypeOf_def)
  have good: "\<exists>rest. snd (snd (CreateTableIfNotExists (recording accept_all) ((), [])
                         (VStruct ''T'' pkey_autoinc)))
         = (''CREATE TABLE IF NOT EXISTS `T` (`Id` INTEGER PRIMARY KEY AUTOINCREMENT)'', []) # rest"
    using autoinc_needs_integer_pkey
            [where fs = pkey_autoinc and ex = accept_all and s = "()" and log = "[]"
               and n = "''T''", THEN conjunct2]
    by (simp add: pkey_autoinc_def mk_field_def IsExported_def tags_of_def sqlTypeOf_def
          autoinc_ok_def has_pkey_def sql_type_def)
  from bad good show ?thesis ..
qed

text \<open>
  The order that C4 leaves open: on a field tagged \<open>autoinc,pkey\<close> the check runs after
  the first token, when \<open>pkey\<close> has not been seen yet, and the call returns the error
  whose message says that the column is not also \<open>pkey\<close>.
\<close>

lemma autoinc_pkey_call:
  "CreateTableIfNotExists (recording accept_all) ((), []) (VStruct ''T'' autoinc_pkey) =
     (Some (AutoincNotPkey ''Id''), ((), []))"
  by (simp add: autoinc_pkey_def scan_eval call_eval)

subsection \<open>C5: the SQL type of a field\<close>




subsection \<open>C6: failures of ALTER TABLE ADD COLUMN\<close>

text \<open>
  Claim C6. Let the scan succeed, the CREATE TABLE succeed, the ADD COLUMN statements
  of the first \<open>k\<close> columns pass, and the executor fail with message \<open>msg\<close> on the ADD
  COLUMN statement of column \<open>k\<close>. If \<open>msg\<close> contains "duplicate column name", the call
  goes on with the ADD COLUMN statements of the remaining columns and then with the
  indexes, exactly as after a success; otherwise the call stops there and returns that
  failure.
\<close>

theorem duplicate_column_tolerated:
  assumes scan: "field_loop (map fst fs) init_scan = Inr st"
    and pk: "primaryKeyCol st \<noteq> []"
    and create: "ex s (create_stmt n st) [] = (Inr r0, s1)"
    and k: "k < length (cols st)"
    and before: "alter_loop ex n (take k (cols st)) (sqlTypes st) 0 s1 = (None, sk)"
    and fail: "ex sk (alter_stmt n (cols st ! k) (sqlTypes st ! k)) [] = (Inl msg, s')"
  shows "CreateTableIfNotExists ex s (VStruct n fs) =
     (if Contains msg ''duplicate column name''
      then (case alter_loop ex n (drop (Suc k) (cols st)) (sqlTypes st) (Suc k) s' of
              (Some e, s2) \<Rightarrow> (Some e, s2)
            | (None, s2) \<Rightarrow> index_loop ex n (indices st) s2)
      else (Some (ExecError msg), s'))"
proof -
  from k field_loop_lengths [OF scan] have kt: "k < length (sqlTypes st)" by simp
  define pre c post where "pre = take k (cols st)" and "c = cols st ! k"
    and "post = drop (Suc k) (cols st)"
  have split: "cols st = pre @ c # post" and len: "length pre = k"
    using k by (simp_all add: pre_def c_def post_def id_take_nth_drop [symmetric])
  have pre: "alter_loop ex n pre (sqlTypes st) 0 s1 = (None, sk)"
    using before by (simp add: pre_def)
  have "alter_loop ex n (pre @ c # post) (sqlTypes st) 0 s1 =
          alter_loop ex n (c # post) (sqlTypes st) k sk"
    by (simp add: alter_loop_append pre len)
  also have "\<dots> = (if Contains msg ''duplicate column name''
       then alter_loop ex n post (sqlTypes st) (Suc k) s'
       else (Some (ExecError msg), s'))"
    using kt fail by (simp add: alter_loop_Cons c_def)
  finally have "alter_loop ex n (cols st) (sqlTypes st) 0 s1 =
      (if Contains msg ''duplicate column name''
       then alter_loop ex n post (sqlTypes st) (Suc k) s'
       else (Some (ExecError msg), s'))"
    by (subst split)
  then show ?thesis
    unfolding post_def
    by (simp add: CreateTableIfNotExists_after_scan [OF scan pk] create)
qed

text \<open>
  C6 at an executor that answers every ALTER TABLE with a duplicate-column failure: the
  call returns no error.
\<close>

theorem duplicate_column_tolerated_witness:
  "CreateTableIfNotExists dup_column_exec () (VStruct ''T'' id_and_name) = (None, ())"
  using duplicate_column_tolerated
          [where ex = dup_column_exec and s = "()" and n = "''T''"
             and ?r0.0 = "Result (Inr 0)" and ?s1.0 = "()" and k = 0 and sk = "()"
             and msg = "''duplicate column name: Name''" and s' = "()",
           OF id_and_name_scan]
  by (simp add: dup_column_exec_def create_stmt_def alter_stmt_def)

subsection \<open>C7: no primary key\<close>

text \<open>
  Claim C7, as the code has it. For a record type in which no exported field carries
  \<open>pkey\<close>, \<open>CreateTableIfNotExists\<close> returns an error and issues no statement: the
  executor's state and the list of recorded calls are unchanged. The error is the
  missing-primary-key error when every exported field has a supported type and none
  carries \<open>autoinc\<close>.
\<close>

theorem no_pkey_no_statement:
  assumes "\<forall>f\<in>set (map fst fs). \<not> has_pkey f"
  shows "(\<exists>e. CreateTableIfNotExists (recording ex) (s, log) (VStruct n fs) = (Some e, (s, log)))
    \<and> ((\<forall>f\<in>set (map fst fs). IsExported f \<longrightarrow>
           (\<exists>ty. sqlTypeOf f = Inr ty) \<and> ''autoinc'' \<notin> set (tags_of f)) \<longrightarrow>
         CreateTableIfNotExists (recording ex) (s, log) (VStruct n fs)
           = (Some (NoPrimaryKey (VStruct n fs)), (s, log)))"
proof (cases "field_loop (map fst fs) init_scan")
  case (Inl e)
  then have *: "CreateTableIfNotExists (recording ex) (s, log) (VStruct n fs) = (Some e, (s, log))"
    by (rule CreateTableIfNotExists_scan_error)
  from field_loop_plain [of "map fst fs" init_scan] Inl
  have "\<not> (\<forall>f\<in>set (map fst fs). IsExported f \<longrightarrow>
           (\<exists>ty. sqlTypeOf f = Inr ty) \<and> ''autoinc'' \<notin> set (tags_of f))"
    by auto
  with * show ?thesis by blast
next
  case (Inr st)
  from field_loop_no_pkey [OF Inr assms] have "primaryKeyCol st = []"
    by (simp add: init_scan_def)
  with Inr show ?thesis by (simp add: CreateTableIfNotExists_def)
qed

text \<open>
  C7 as stated fails for a struct whose only field is a map: no field carries \<open>pkey\<close>,
  and the error returned is the unsupported-type error, not the missing-primary-key
  error.
\<close>

theorem no_pkey_but_other_error:
  "CreateTableIfNotExists (recording accept_all) ((), []) (VStruct ''T'' only_map) =
     (Some (UnsupportedType (mk_field ''Data'' (TMap TString TInt) [])), ((), []))
   \<and> UnsupportedType (mk_field ''Data'' (TMap TString TInt) []) \<noteq> NoPrimaryKey (VStruct ''T'' only_map)"
  by (simp add: only_map_def scan_eval call_eval)

text \<open>C7 at a struct whose only field is an untagged string.\<close>

theorem no_pkey_no_statement_witness:
  "CreateTableIfNotExists (recording accept_all) ((), []) (VStruct ''T'' only_name)
     = (Some (NoPrimaryKey (VStruct ''T'' only_name)), ((), []))"
  using no_pkey_no_statement
          [where fs = only_name and ex = accept_all and s = "()" and log = "[]" and n = "''T''"]
  by (simp add: only_name_def has_pkey_def mk_field_def IsExported_def tags_of_def sqlTypeOf_def)

subsection \<open>C8: the statement that Upsert issues\<close>

text \<open>
  Claim C8. For a pointer to a struct, \<open>Upsert\<close> issues exactly one statement: the
  recorded calls grow by one entry. Its text is INSERT, then OR REPLACE exactly when
  \<open>overwrite\<close> is true, then INTO, the type name in backquotes, the columns, and VALUES
  with one question mark per column; there are as many parameters as columns. When the
  executor fails on that statement, its failure is what \<open>Upsert\<close> returns, nothing
  further is issued, and the instance is as it was.
\<close>

theorem upsert_issues_one_insert:
  "let acc = upsert_fields fs 0 init_acc;
       stmt = insert_stmt overwrite n acc;
       p = VPointer (Some (VStruct n fs));
       r = Upsert (recording ex) (s, log) p overwrite
   in snd (snd (snd r)) = log @ [(stmt, params acc)]
    \<and> stmt = ''INSERT '' @ (if overwrite then ''OR REPLACE '' else []) @ ''INTO `'' @ n
         @ ''` ('' @ Join (ins_cols acc) '','' @ '') VALUES (''
         @ Join (replicate (length (ins_cols acc)) ''?'') '','' @ '')''
    \<and> length (params acc) = length (ins_cols acc)
    \<and> (ex s stmt (params acc) = (Inl msg, s') \<longrightarrow>
          r = (Some (ExecError msg), p, (s', log @ [(stmt, params acc)])))"
proof -
  let ?acc = "upsert_fields fs 0 init_acc"
  let ?stmt = "insert_stmt overwrite n ?acc"
  let ?p = "VPointer (Some (VStruct n fs))"
  let ?r = "Upsert (recording ex) (s, log) ?p overwrite"
  have a: "snd (snd (snd ?r)) = log @ [(?stmt, params ?acc)]"
    by (simp add: Upsert_struct Let_def recording_apply split: sum.splits option.splits)
  have q: "qmarks ?acc = replicate (length (ins_cols ?acc)) ''?''"
    by (simp add: upsert_fields_qmarks upsert_fields_cols)
  have b: "?stmt = ''INSERT '' @ (if overwrite then ''OR REPLACE '' else []) @ ''INTO `'' @ n
         @ ''` ('' @ Join (ins_cols ?acc) '','' @ '') VALUES (''
         @ Join (replicate (length (ins_cols ?acc)) ''?'') '','' @ '')''"
    unfolding insert_stmt_def q ..
  have c: "length (params ?acc) = length (ins_cols ?acc)"
    by (simp add: upsert_fields_params upsert_fields_cols)
  have d: "ex s ?stmt (params ?acc) = (Inl msg, s') \<longrightarrow>
          ?r = (Some (ExecError msg), ?p, (s', log @ [(?stmt, params ?acc)]))"
    by (simp add: Upsert_struct Let_def recording_apply)
  show ?thesis
    unfolding Let_def by (rule conjI [OF a conjI [OF b conjI [OF c d]]])
qed

text \<open>C8 at an explicit key, \<open>overwrite\<close> set, and an executor that reports a collision.\<close>

theorem upsert_issues_one_insert_witness:
  "Upsert (recording (reject_all ''UNIQUE constraint failed: T.Id'')) ((), [])
      (VPointer (Some (VStruct ''T'' explicit_key))) True =
     (Some (ExecError ''UNIQUE constraint failed: T.Id''),
      VPointer (Some (VStruct ''T'' explicit_key)),
      ((), [(''INSERT OR REPLACE INTO `T` (`Id`,`Name`) VALUES (?,?)'',
             [VInt64 5, VString ''x''])]))"
  using upsert_issues_one_insert
          [where fs = explicit_key and overwrite = True and n = "''T''"
             and ex = "reject_all ''UNIQUE constraint failed: T.Id''" and s = "()" and log = "[]"
             and msg = "''UNIQUE constraint failed: T.Id''" and s' = "()"]
  by (simp add: Let_def explicit_key_def mk_field_def IsExported_def tags_of_def CanInt_def
        init_acc_def insert_stmt_def backquote_def reject_all_def)

subsection \<open>C9: non-exported fields\<close>

text \<open>
  Claim C9. Removing the non-exported fields from a struct changes nothing in what
  \<open>CreateTableIfNotExists\<close> and \<open>Upsert\<close> do with the executor: the recorded statements
  and parameters and the executor's final state are the same, \<open>CreateTableIfNotExists\<close>
  succeeds for the one exactly when it does for the other, and \<open>Upsert\<close> returns the
  same error or none. The SQL text and its parameters are thus determined by the exported
  fields alone. After \<open>Upsert\<close> the struct has the same number of fields and every
  non-exported field is as it was.
\<close>

theorem unexported_fields_do_not_take_part:
  "snd (CreateTableIfNotExists (recording ex) (s, log) (VStruct n (exported_fields fs)))
     = snd (CreateTableIfNotExists (recording ex) (s, log) (VStruct n fs))
   \<and> (fst (CreateTableIfNotExists (recording ex) (s, log) (VStruct n fs)) = None
        \<longleftrightarrow> fst (CreateTableIfNotExists (recording ex) (s, log) (VStruct n (exported_fields fs))) = None)
   \<and> fst (Upsert (recording ex) (s, log) (VPointer (Some (VStruct n (exported_fields fs)))) ow)
       = fst (Upsert (recording ex) (s, log) (VPointer (Some (VStruct n fs))) ow)
   \<and> snd (snd (Upsert (recording ex) (s, log) (VPointer (Some (VStruct n (exported_fields fs)))) ow))
       = snd (snd (Upsert (recording ex) (s, log) (VPointer (Some (VStruct n fs))) ow))
   \<and> (\<exists>fs'. fst (snd (Upsert (recording ex) (s, log) (VPointer (Some (VStruct n fs))) ow))
               = VPointer (Some (VStruct n fs'))
          \<and> length fs' = length fs
          \<and> (\<forall>i<length fs. \<not> IsExported (fst (fs ! i)) \<longrightarrow> fs' ! i = fs ! i))"
proof -
  note ct = CreateTableIfNotExists_exported [of "recording ex" "(s, log)" n fs]
  note up = Upsert_exported [of "recording ex" "(s, log)" n fs ow]
  from ct have a: "snd (CreateTableIfNotExists (recording ex) (s, log) (VStruct n (exported_fields fs)))
     = snd (CreateTableIfNotExists (recording ex) (s, log) (VStruct n fs))" ..
  from ct have b: "fst (CreateTableIfNotExists (recording ex) (s, log) (VStruct n fs)) = None
        \<longleftrightarrow> fst (CreateTableIfNotExists (recording ex) (s, log) (VStruct n (exported_fields fs))) = None"
    by auto
  from up have c: "fst (Upsert (recording ex) (s, log) (VPointer (Some (VStruct n (exported_fields fs)))) ow)
       = fst (Upsert (recording ex) (s, log) (VPointer (Some (VStruct n fs))) ow)" ..
  from up have d: "snd (snd (Upsert (recording ex) (s, log) (VPointer (Some (VStruct n (exported_fields fs)))) ow))
       = snd (snd (Upsert (recording ex) (s, log) (VPointer (Some (VStruct n fs))) ow))" ..
  show ?thesis
    by (rule conjI [OF a conjI [OF b conjI [OF c conjI [OF d Upsert_unexported_untouched]]]])
qed

text \<open>
  The name of a non-exported field in generated SQL text: the struct has a non-exported
  field \<open>secret\<close> and an exported field \<open>A\<close> tagged \<open>uniqueWith(secret)\<close>. The argument
  of the token is copied as it stands into the CREATE INDEX statement, which so names
  \<open>secret\<close> both in the index name and in the column list.
\<close>

theorem unexported_name_in_index_statement:
  "\<not> IsExported (fst (secret_in_index ! 0))
   \<and> Name (fst (secret_in_index ! 0)) = ''secret''
   \<and> CreateTableIfNotExists (recording accept_all) ((), []) (VStruct ''T'' secret_in_index) =
     (None, ((), [(''CREATE TABLE IF NOT EXISTS `T` (`Id` INTEGER PRIMARY KEY)'', []),
                  (''ALTER TABLE `T` ADD COLUMN `A` INTEGER'', []),
                  (''CREATE UNIQUE INDEX IF NOT EXISTS `T.A,secret` ON `T` (`A`,`secret`)'', [])]))"
  by (simp add: secret_in_index_call) (simp add: secret_in_index_def IsExported_def)

text \<open>
  C9 at a struct whose first field is not exported although it is tagged \<open>pkey\<close> and
  zero: after the call that field is as it was.
\<close>

theorem unexported_fields_do_not_take_part_witness:
  "\<exists>fs'. fst (snd (Upsert (recording accept_all) ((), [])
                     (VPointer (Some (VStruct ''T'' with_secret))) False))
            = VPointer (Some (VStruct ''T'' fs'))
        \<and> length fs' = 2 \<and> fs' ! 0 = with_secret ! 0"
proof -
  from unexported_fields_do_not_take_part
         [where ex = accept_all and s = "()" and log = "[]" and n = "''T''"
            and fs = with_secret and ow = False]
  obtain fs' where
    "fst (snd (Upsert (recording accept_all) ((), [])
                 (VPointer (Some (VStruct ''T'' with_secret))) False))
       = VPointer (Some (VStruct ''T'' fs'))"
    "length fs' = length with_secret"
    "\<forall>i<length with_secret. \<not> IsExported (fst (with_secret ! i)) \<longrightarrow> fs' ! i = with_secret ! i"
    by (elim conjE exE)
  moreover have "length with_secret = 2" "\<not> IsExported (fst (with_secret ! 0))"
    by (simp_all add: with_secret_def IsExported_def)
  ultimately show ?thesis by (intro exI [of _ fs']) simp
qed

subsection \<open>C10: the shape of the input\<close>

text \<open>
  Claim C10. \<open>CreateTableIfNotExists\<close> returns the not-a-struct error for every value
  whose kind is not struct, so for every pointer, a pointer to a struct included.
  \<open>Upsert\<close> returns the not-a-pointer error for every value whose kind is not pointer, so
  for every bare struct value, and the not-a-pointer-to-a-struct error for every pointer
  whose pointee is not a struct, the nil pointer included. In each of these rejections
  the executor is not invoked: its state and the list of recorded calls are unchanged,
  and so is the value passed. On the shape that a function requires, a struct for
  \<open>CreateTableIfNotExists\<close> and a pointer to a struct for \<open>Upsert\<close>, none of these three
  errors is returned.
\<close>

theorem shape_rejections_never_reach_executor:
  "(ValueKind v \<noteq> KStruct \<longrightarrow>
      CreateTableIfNotExists (recording ex) (s, log) v = (Some (NotAStruct v), (s, log)))
   \<and> CreateTableIfNotExists (recording ex) (s, log) (VPointer q)
       = (Some (NotAStruct (VPointer q)), (s, log))
   \<and> (ValueKind w \<noteq> KPointer \<longrightarrow>
      Upsert (recording ex) (s, log) w overwrite = (Some (NotAPtr w), w, (s, log)))
   \<and> Upsert (recording ex) (s, log) (VStruct n fs) overwrite
       = (Some (NotAPtr (VStruct n fs)), VStruct n fs, (s, log))
   \<and> (ValueKind (Elem (VPointer p)) \<noteq> KStruct \<longrightarrow>
      Upsert (recording ex) (s, log) (VPointer p) overwrite
        = (Some (NotAPtrToStruct (VPointer p)), VPointer p, (s, log)))
   \<and> Upsert (recording ex) (s, log) (VPointer None) overwrite
       = (Some (NotAPtrToStruct (VPointer None)), VPointer None, (s, log))
   \<and> fst (CreateTableIfNotExists (recording ex) (s, log) (VStruct n fs)) \<noteq> Some (NotAStruct x)
   \<and> fst (Upsert (recording ex) (s, log) (VPointer (Some (VStruct n fs))) overwrite)
       \<noteq> Some (NotAPtr x)
   \<and> fst (Upsert (recording ex) (s, log) (VPointer (Some (VStruct n fs))) overwrite)
       \<noteq> Some (NotAPtrToStruct x)"
proof -
  have a: "ValueKind v \<noteq> KStruct \<longrightarrow>
      CreateTableIfNotExists (recording ex) (s, log) v = (Some (NotAStruct v), (s, log))"
    by (simp add: CreateTableIfNotExists_def)
  have b: "CreateTableIfNotExists (recording ex) (s, log) (VPointer q)
       = (Some (NotAStruct (VPointer q)), (s, log))"
    by (simp add: CreateTableIfNotExists_def)
  have c: "ValueKind w \<noteq> KPointer \<longrightarrow>
      Upsert (recording ex) (s, log) w overwrite = (Some (NotAPtr w), w, (s, log))"
    by (simp add: Upsert_def)
  have d: "Upsert (recording ex) (s, log) (VStruct n fs) overwrite
       = (Some (NotAPtr (VStruct n fs)), VStruct n fs, (s, log))"
    by (simp add: Upsert_def)
  have e: "ValueKind (Elem (VPointer p)) \<noteq> KStruct \<longrightarrow>
      Upsert (recording ex) (s, log) (VPointer p) overwrite
        = (Some (NotAPtrToStruct (VPointer p)), VPointer p, (s, log))"
    by (simp add: Upsert_def)
  have f: "Upsert (recording ex) (s, log) (VPointer None) overwrite
       = (Some (NotAPtrToStruct (VPointer None)), VPointer None, (s, log))"
    by (simp add: Upsert_def)
  note g = CreateTableIfNotExists_struct_accepted [of "recording ex" "(s, log)" n fs x]
  note h = Upsert_pointer_to_struct_accepted [of "recording ex" "(s, log)" n fs overwrite x x]
  from a b c d e f g h show ?thesis by (intro conjI) (rule TrueI | assumption | erule conjunct1 | erule conjunct2)+
qed

text \<open>
  C10 at a pointer to a struct and at a string passed to \<open>CreateTableIfNotExists\<close>, and
  at a bare struct and at a pointer to a string passed to \<open>Upsert\<close>.
\<close>

theorem shape_rejections_never_reach_executor_witness:
  "CreateTableIfNotExists (recording accept_all) ((), [])
       (VPointer (Some (VStruct ''T'' id_and_name)))
     = (Some (NotAStruct (VPointer (Some (VStruct ''T'' id_and_name)))), ((), []))
   \<and> CreateTableIfNotExists (recording accept_all) ((), []) (VString ''x'')
     = (Some (NotAStruct (VString ''x'')), ((), []))
   \<and> Upsert (recording accept_all) ((), []) (VStruct ''T'' id_and_name) True
     = (Some (NotAPtr (VStruct ''T'' id_and_name)), VStruct ''T'' id_and_name, ((), []))
   \<and> Upsert (recording accept_all) ((), []) (VPointer (Some (VString ''x''))) True
     = (Some (NotAPtrToStruct (VPointer (Some (VString ''x'')))),
        VPointer (Some (VString ''x'')), ((), []))"
proof -
  note t1 = shape_rejections_never_reach_executor
    [where v = "VPointer (Some (VStruct ''T'' id_and_name))" and ex = accept_all
       and s = "()" and log = "[]" and w = "VStruct ''T'' id_and_name" and overwrite = True
       and p = "Some (VString ''x'')" and q = "Some (VString ''x'')"
       and n = "''T''" and fs = id_and_name and x = VNil]
  have k1: "ValueKind (VPointer (Some (VStruct ''T'' id_and_name))) \<noteq> KStruct" by simp
  have k2: "ValueKind (VStruct ''T'' id_and_name) \<noteq> KPointer" by simp
  have k3: "ValueKind (Elem (VPointer (Some (VString ''x'')))) \<noteq> KStruct" by simp
  from t1 k1 have r1: "CreateTableIfNotExists (recording accept_all) ((), [])
       (VPointer (Some (VStruct ''T'' id_and_name)))
     = (Some (NotAStruct (VPointer (Some (VStruct ''T'' id_and_name)))), ((), []))"
    by (elim conjE) (erule mp)
  have r2: "CreateTableIfNotExists (recording accept_all) ((), []) (VString ''x'')
     = (Some (NotAStruct (VString ''x'')), ((), []))"
    using shape_rejections_never_reach_executor
      [where v = "VString ''x''" and ex = accept_all and s = "()" and log = "[]"]
    by simp
  from t1 k2 have r3: "Upsert (recording accept_all) ((), []) (VStruct ''T'' id_and_name) True
     = (Some (NotAPtr (VStruct ''T'' id_and_name)), VStruct ''T'' id_and_name, ((), []))"
    by (elim conjE) (erule mp)
  from t1 k3 have r4: "Upsert (recording accept_all) ((), []) (VPointer (Some (VString ''x''))) True
     = (Some (NotAPtrToStruct (VPointer (Some (VString ''x'')))),
        VPointer (Some (VString ''x'')), ((), []))"
    by (elim conjE) (erule mp)
  from r1 r2 r3 r4 show ?thesis by (intro conjI)
qed

end
